theory Spec2Isabelle
  imports Main "HOL-Library.Word" "HOL-Library.Sublist"
begin

section \<open>JavaScript strings\<close>

text \<open>
  A JavaScript string is a sequence of 16-bit code units. Literals of the source that are
  plain ASCII are written \<open>js ''...''\<close>; code units beyond ASCII are written as numerals
  (the bullet of \<open>server.js\<close> line 135 is U+2022).
\<close>

type_synonym char16 = "16 word"
type_synonym jsstring = "char16 list"

definition js :: "string \<Rightarrow> jsstring" where
  "js s = map of_char s"

text \<open>
  \<open>WhiteSpace\<close> and \<open>LineTerminator\<close> of ECMAScript: the code units that
  \<open>String.prototype.trim\<close> removes.
\<close>

definition isWhiteSpace :: "char16 \<Rightarrow> bool" where
  "isWhiteSpace c \<longleftrightarrow>
     c = 0x0009 \<or> c = 0x000A \<or> c = 0x000B \<or> c = 0x000C \<or> c = 0x000D \<or> c = 0x0020 \<or>
     c = 0x00A0 \<or> c = 0x1680 \<or> (0x2000 \<le> c \<and> c \<le> 0x200A) \<or> c = 0x2028 \<or>
     c = 0x2029 \<or> c = 0x202F \<or> c = 0x205F \<or> c = 0x3000 \<or> c = 0xFEFF"

definition trim :: "jsstring \<Rightarrow> jsstring" where
  "trim s = rev (dropWhile isWhiteSpace (rev (dropWhile isWhiteSpace s)))"

text \<open>
  \<open>String.prototype.split\<close> with a string separator: the occurrences of the separator are
  found from left to right, each search starting behind the previous occurrence;
  \<open>piece\<close> holds the code units read since then. With the empty separator the string is
  cut into its code units.
\<close>

fun split_from :: "jsstring \<Rightarrow> jsstring \<Rightarrow> jsstring \<Rightarrow> jsstring list" where
  "split_from sep [] piece = [piece]"
| "split_from sep (c # cs) piece =
     (if prefix sep (c # cs)
      then piece # split_from sep (drop (length sep - 1) cs) []
      else split_from sep cs (piece @ [c]))"

definition split :: "jsstring \<Rightarrow> jsstring \<Rightarrow> jsstring list" where
  "split s sep = (if sep = [] then map (\<lambda>c. [c]) s else split_from sep s [])"

text \<open>\<open>Array.prototype.join\<close> on an array of strings.\<close>

fun join :: "jsstring list \<Rightarrow> jsstring \<Rightarrow> jsstring" where
  "join [] sep = []"
| "join [x] sep = x"
| "join (x # y # ys) sep = x @ sep @ join (y # ys) sep"

text \<open>\<open>String.prototype.includes\<close>.\<close>

fun includes_str :: "jsstring \<Rightarrow> jsstring \<Rightarrow> bool" where
  "includes_str [] sub = (sub = [])"
| "includes_str (c # cs) sub = (prefix sub (c # cs) \<or> includes_str cs sub)"

text \<open>
  The decimal digits of a non-negative integer, and the string that a template literal or
  \<open>+\<close> makes of an integral Number (below \<open>10^21\<close> in absolute value, which holds for
  \<open>Date.now()\<close> and for a slide counter).
\<close>

fun digits :: "nat \<Rightarrow> jsstring" where
  "digits n =
     (if n < 10 then [of_nat (48 + n)] else digits (n div 10) @ [of_nat (48 + n mod 10)])"

declare digits.simps [simp del]

definition Number_toString :: "int \<Rightarrow> jsstring" where
  "Number_toString x = (if x < 0 then 0x2D # digits (nat (- x)) else digits (nat x))"

text \<open>A string is falsy exactly when it is \<open>undefined\<close> or empty.\<close>

definition falsy :: "jsstring option \<Rightarrow> bool" where
  "falsy v = (case v of None \<Rightarrow> True | Some s \<Rightarrow> s = [])"


section \<open>Splitting the Markdown text into slides (\<open>server.js\<close> line 93)\<close>

definition slidesContent :: "jsstring \<Rightarrow> jsstring list" where
  "slidesContent markdownText =
     filter (\<lambda>s. s \<noteq> []) (map (\<lambda>s. trim s) (split markdownText (js ''---'')))"


section \<open>The token scan (\<open>server.js\<close> lines 114 to 144)\<close>

text \<open>
  A token of markdown-it, with the two fields the scan reads. The parser itself is a
  library outside the repository; it is a parameter of the model (\<open>markdownit_parse\<close> below).
\<close>

record token =
  type :: jsstring
  content :: jsstring

function scanTokens ::
  "token list \<Rightarrow> nat \<Rightarrow> jsstring \<Rightarrow> jsstring list \<Rightarrow> jsstring \<times> jsstring list" where
  "scanTokens tokens i slideTitle slideBodyElements =
     (if i < length tokens then
        (let token = tokens ! i in
         if type token = js ''heading_open'' then
           (if i + 1 < length tokens \<and> type (tokens ! (i + 1)) = js ''inline''
            then scanTokens tokens (i + 2) (content (tokens ! (i + 1))) slideBodyElements
            else scanTokens tokens (i + 1) slideTitle slideBodyElements)
         else if type token = js ''paragraph_open'' \<or> type token = js ''list_item_open'' then
           (if i + 1 < length tokens \<and> type (tokens ! (i + 1)) = js ''inline''
            then scanTokens tokens (i + 2) slideTitle
                   (slideBodyElements @
                     [if type token = js ''list_item_open''
                      then [0x2022, 0x20] @ content (tokens ! (i + 1))
                      else content (tokens ! (i + 1))])
            else scanTokens tokens (i + 1) slideTitle slideBodyElements)
         else scanTokens tokens (i + 1) slideTitle slideBodyElements)
      else (slideTitle, slideBodyElements))"
  by pat_completeness auto
termination
  by (relation "measure (\<lambda>(tokens, i, slideTitle, slideBodyElements). length tokens - i)") auto

declare scanTokens.simps [simp del]

text \<open>
  For the proofs, the scan as a fold over the pairs of adjacent tokens
  (\<open>zip tokens (tl tokens)\<close>): what the loop does with \<open>tokens[i]\<close> and \<open>tokens[i + 1]\<close>.
  Skipping the inline token with \<open>i++\<close> skips a pair whose first token is inline, which
  changes nothing; \<open>scanTokens_fold\<close> below shows that the loop computes this fold.
\<close>

definition scanPair :: "jsstring \<times> jsstring list \<Rightarrow> token \<times> token \<Rightarrow> jsstring \<times> jsstring list" where
  "scanPair acc p =
     (if type (snd p) \<noteq> js ''inline'' then acc
      else if type (fst p) = js ''heading_open'' then (content (snd p), snd acc)
      else if type (fst p) = js ''paragraph_open'' \<or> type (fst p) = js ''list_item_open'' then
        (fst acc, snd acc @
           [if type (fst p) = js ''list_item_open''
            then [0x2022, 0x20] @ content (snd p) else content (snd p)])
      else acc)"


section \<open>The batch of requests (\<open>server.js\<close> lines 107 to 255)\<close>

datatype dimension = Dimension nat jsstring
  \<comment> \<open>\<open>{ magnitude, unit }\<close>\<close>

datatype affine_transform = Transform nat nat nat nat jsstring
  \<comment> \<open>\<open>{ scaleX, scaleY, translateX, translateY, unit }\<close>\<close>

datatype shape_size = Size dimension dimension
  \<comment> \<open>\<open>{ width, height }\<close>\<close>

datatype element_properties = ElementProperties jsstring affine_transform shape_size
  \<comment> \<open>\<open>{ pageObjectId, transform, size }\<close>\<close>

datatype text_style = TextStyle dimension "bool option"
  \<comment> \<open>\<open>{ fontSize, bold }\<close>; \<open>bold\<close> is absent from the style of the body\<close>

datatype request =
    CreateSlide jsstring nat jsstring
      \<comment> \<open>\<open>objectId\<close>, \<open>insertionIndex\<close>, \<open>slideLayoutReference.predefinedLayout\<close>\<close>
  | CreateShape jsstring jsstring element_properties
      \<comment> \<open>\<open>objectId\<close>, \<open>shapeType\<close>, \<open>elementProperties\<close>\<close>
  | InsertText jsstring jsstring
      \<comment> \<open>\<open>objectId\<close>, \<open>text\<close>\<close>
  | UpdateTextStyle jsstring jsstring text_style jsstring
      \<comment> \<open>\<open>objectId\<close>, \<open>textRange.type\<close>, \<open>style\<close>, \<open>fields\<close>\<close>

text \<open>
  The state of the loop over the slides: the array \<open>requests\<close>, the counter
  \<open>slideCount\<close>, and the number of readings of \<open>Date.now()\<close> taken so far. The clock is
  a parameter: \<open>now k\<close> is what the \<open>k\<close>-th reading returns, with no assumption on it.
\<close>

record loop_state =
  requests :: "request list"
  slideCount :: nat
  readings :: nat

definition slideObjectId :: "int \<Rightarrow> nat \<Rightarrow> jsstring" where
  "slideObjectId t n = js ''slide_'' @ Number_toString t @ js ''_'' @ digits n"

definition titleShapeObjectId :: "int \<Rightarrow> nat \<Rightarrow> jsstring" where
  "titleShapeObjectId t n = js ''title_shape_'' @ Number_toString t @ js ''_'' @ digits n"

definition bodyShapeObjectId :: "int \<Rightarrow> nat \<Rightarrow> jsstring" where
  "bodyShapeObjectId t n = js ''body_shape_'' @ Number_toString t @ js ''_'' @ digits n"

text \<open>\<open>slideTitle || 'Slide ' + (slideCount + 1)\<close>: the sum binds tighter than \<open>||\<close>.\<close>

definition titleText :: "jsstring \<Rightarrow> nat \<Rightarrow> jsstring" where
  "titleText slideTitle n = (if slideTitle \<noteq> [] then slideTitle else js ''Slide '' @ digits (n + 1))"

text \<open>One turn of the loop \<open>for (const slideMd of slidesContent)\<close>, with its seven pushes.\<close>

definition slideStep ::
  "(jsstring \<Rightarrow> token list) \<Rightarrow> (nat \<Rightarrow> int) \<Rightarrow> loop_state \<Rightarrow> jsstring \<Rightarrow> loop_state" where
  "slideStep parse now st slideMd =
     (let tokens = parse slideMd;
          (slideTitle, slideBodyElements) = scanTokens tokens 0 [] [];
          n = slideCount st;
          sid = slideObjectId (now (readings st)) n;
          rs = requests st @ [CreateSlide sid n (js ''TITLE_AND_BODY'')];
          tid = titleShapeObjectId (now (readings st + 1)) n;
          rs = rs @ [CreateShape tid (js ''TEXT_BOX'')
                      (ElementProperties sid (Transform 1 1 50 50 (js ''PT''))
                         (Size (Dimension 600 (js ''PT'')) (Dimension 50 (js ''PT''))))];
          rs = rs @ [InsertText tid (titleText slideTitle n)];
          rs = rs @ [UpdateTextStyle tid (js ''ALL'')
                      (TextStyle (Dimension 24 (js ''PT'')) (Some True)) (js ''fontSize,bold'')];
          bid = bodyShapeObjectId (now (readings st + 2)) n;
          rs = rs @ [CreateShape bid (js ''TEXT_BOX'')
                      (ElementProperties sid (Transform 1 1 50 120 (js ''PT''))
                         (Size (Dimension 600 (js ''PT'')) (Dimension 350 (js ''PT''))))];
          rs = rs @ [InsertText bid (join slideBodyElements [0x0A, 0x0A])];
          rs = rs @ [UpdateTextStyle bid (js ''ALL'')
                      (TextStyle (Dimension 14 (js ''PT'')) None) (js ''fontSize'')]
      in \<lparr>requests = rs, slideCount = n + 1, readings = readings st + 3\<rparr>)"

fun slideLoop ::
  "(jsstring \<Rightarrow> token list) \<Rightarrow> (nat \<Rightarrow> int) \<Rightarrow> loop_state \<Rightarrow> jsstring list \<Rightarrow> loop_state" where
  "slideLoop parse now st [] = st"
| "slideLoop parse now st (slideMd # rest) = slideLoop parse now (slideStep parse now st slideMd) rest"

definition buildRequests ::
  "(jsstring \<Rightarrow> token list) \<Rightarrow> (nat \<Rightarrow> int) \<Rightarrow> jsstring list \<Rightarrow> request list" where
  "buildRequests parse now fragments =
     requests (slideLoop parse now \<lparr>requests = [], slideCount = 0, readings = 0\<rparr> fragments)"


text \<open>
  The identifiers that a batch creates: the \<open>objectId\<close> of each \<open>createSlide\<close> and
  \<open>createShape\<close> request, in order.
\<close>

fun createdObjectIds :: "request list \<Rightarrow> jsstring list" where
  "createdObjectIds [] = []"
| "createdObjectIds (CreateSlide objectId k layout # rs) = objectId # createdObjectIds rs"
| "createdObjectIds (CreateShape objectId shapeType props # rs) = objectId # createdObjectIds rs"
| "createdObjectIds (r # rs) = createdObjectIds rs"

text \<open>
  For the proofs, the loop in closed form: the seven requests of one turn, given what the
  scan returned, the three clock readings and the counter; and the batch from counter
  \<open>n\<close> and reading \<open>r\<close> on. \<open>slideLoop_eq\<close> below shows that the loop builds
  exactly this.
\<close>

definition slideRequests ::
  "jsstring \<times> jsstring list \<Rightarrow> int \<Rightarrow> int \<Rightarrow> int \<Rightarrow> nat \<Rightarrow> request list" where
  "slideRequests scanned t1 t2 t3 n =
     [CreateSlide (slideObjectId t1 n) n (js ''TITLE_AND_BODY''),
      CreateShape (titleShapeObjectId t2 n) (js ''TEXT_BOX'')
        (ElementProperties (slideObjectId t1 n) (Transform 1 1 50 50 (js ''PT''))
           (Size (Dimension 600 (js ''PT'')) (Dimension 50 (js ''PT'')))),
      InsertText (titleShapeObjectId t2 n) (titleText (fst scanned) n),
      UpdateTextStyle (titleShapeObjectId t2 n) (js ''ALL'')
        (TextStyle (Dimension 24 (js ''PT'')) (Some True)) (js ''fontSize,bold''),
      CreateShape (bodyShapeObjectId t3 n) (js ''TEXT_BOX'')
        (ElementProperties (slideObjectId t1 n) (Transform 1 1 50 120 (js ''PT''))
           (Size (Dimension 600 (js ''PT'')) (Dimension 350 (js ''PT'')))),
      InsertText (bodyShapeObjectId t3 n) (join (snd scanned) [0x0A, 0x0A]),
      UpdateTextStyle (bodyShapeObjectId t3 n) (js ''ALL'')
        (TextStyle (Dimension 14 (js ''PT'')) None) (js ''fontSize'')]"

fun batchFrom ::
  "(jsstring \<Rightarrow> token list) \<Rightarrow> (nat \<Rightarrow> int) \<Rightarrow> nat \<Rightarrow> nat \<Rightarrow> jsstring list \<Rightarrow> request list" where
  "batchFrom parse now n r [] = []"
| "batchFrom parse now n r (slideMd # rest) =
     slideRequests (scanTokens (parse slideMd) 0 [] []) (now r) (now (r + 1)) (now (r + 2)) n @
     batchFrom parse now (n + 1) (r + 3) rest"


section \<open>The routes\<close>

text \<open>
  The process-wide slot \<open>oauth2Client.credentials\<close>; it starts as the empty object.
\<close>

record credentials =
  access_token :: "jsstring option"
  refresh_token :: "jsstring option"

text \<open>
  An error thrown by a collaborator. \<open>code\<close> is \<open>None\<close> when the property is no number;
  \<open>name\<close> is what the error prints as when its message is empty.
\<close>

record js_error =
  name :: jsstring
  code :: "int option"
  message :: jsstring

datatype view_locals = IsAuthenticated bool | PresentationUrl jsstring

datatype response =
    Redirect jsstring
  | Send nat jsstring
      \<comment> \<open>\<open>res.status(n).send(body)\<close>\<close>
  | Render jsstring view_locals

text \<open>
  The collaborators outside the repository, as parameters: the token exchange, the two
  calls of the Slides API, the clock and the Markdown parser. A call either throws
  (\<open>Inl\<close>) or returns (\<open>Inr\<close>). The last parameter is the web framework: what it
  answers when the promise of an \<open>async\<close> handler rejects, that is, when the handler throws
  outside its \<open>try\<close>. Express 5 hands the error to its error handler, which answers with
  status 500; express 4 does not observe the rejection and no response is sent (\<open>None\<close>).
  The source pins no version of express.
\<close>

record world =
  getToken :: "jsstring option \<Rightarrow> js_error + credentials"
  presentations_create :: "jsstring \<Rightarrow> js_error + jsstring"
  presentations_batchUpdate :: "jsstring \<Rightarrow> request list \<Rightarrow> js_error + unit"
  Date_now :: "nat \<Rightarrow> int"
  markdownit_parse :: "jsstring \<Rightarrow> token list"
  onRejection :: "response option"

datatype api_call =
    PresentationsCreate jsstring
      \<comment> \<open>\<open>requestBody.title\<close>\<close>
  | BatchUpdate jsstring "request list"
      \<comment> \<open>\<open>presentationId\<close>, \<open>requestBody.requests\<close>\<close>

text \<open>
  The body of a request as the handler finds it in \<open>req.body\<close>: \<open>undefined\<close> when no
  middleware parsed a body (under express 5, a request with no body or with another
  content type than that of a form; the body parser of express 4 always leaves an
  object), or an object, given by its property \<open>markdownText\<close>, which is \<open>None\<close> when the
  object holds no string under that name.
\<close>

datatype req_body = NoBody | Form "jsstring option"

text \<open>
  What became of a request: the response sent (\<open>None\<close> when none was sent), the calls to
  the Slides API the handler made, in order, and the credential slot afterwards.
\<close>

record outcome =
  response :: "response option"
  calls :: "api_call list"
  slot :: credentials

text \<open>\<open>GET /auth/google/callback\<close>; \<open>setCredentials\<close> assigns the slot.\<close>

definition auth_google_callback :: "world \<Rightarrow> credentials \<Rightarrow> jsstring option \<Rightarrow> outcome" where
  "auth_google_callback w creds code' =
     (case getToken w code' of
        Inr tokens \<Rightarrow> \<lparr>response = Some (Redirect (js ''/'')), calls = [], slot = tokens\<rparr>
      | Inl error \<Rightarrow>
          \<lparr>response = Some (Send 500 (js ''Erro na autentica'' @ [0xE7, 0xE3] @ js ''o com o Google.'')),
           calls = [], slot = creds\<rparr>)"

text \<open>\<open>GET /\<close>.\<close>

definition index :: "credentials \<Rightarrow> outcome" where
  "index creds =
     \<lparr>response = Some (Render (js ''index'') (IsAuthenticated (\<not> falsy (access_token creds)))),
      calls = [], slot = creds\<rparr>"

text \<open>The \<open>catch\<close> block of \<open>POST /convert\<close>.\<close>

definition convert_catch :: "js_error \<Rightarrow> response" where
  "convert_catch error =
     (if code error = Some 400 \<and> includes_str (message error) (js ''LAYOUT_NOT_FOUND'') then
        Send 500 (js ''Erro: O layout de slide \"TITLE_AND_BODY\" pode n'' @ [0xE3] @
          js ''o estar dispon'' @ [0xED] @ js ''vel ou houve um problema na cria'' @ [0xE7, 0xE3] @
          js ''o do slide. Verifique as permiss'' @ [0xF5] @ js ''es da API e tente novamente.'')
      else if code error = Some 401 then
        Send 401 (js ''Erro de autentica'' @ [0xE7, 0xE3] @
          js ''o: Suas credenciais podem estar expiradas ou inv'' @ [0xE1] @
          js ''lidas. Por favor, tente fazer login novamente com o Google.'')
      else
        Send 500 (js ''Ocorreu um erro inesperado ao converter o Markdown para slides: '' @
          (if message error \<noteq> [] then message error else name error)))"

text \<open>
  \<open>POST /convert\<close>. Line 84 reads the property \<open>markdownText\<close> of \<open>req.body\<close> before
  the guard on the access token: when \<open>req.body\<close> is \<open>undefined\<close> the destructuring throws.
  Behind the guard, \<open>split\<close> on a field that is no string throws as well, before the
  \<open>try\<close>. In both cases the promise of the handler rejects and the framework answers.
\<close>

definition convert :: "world \<Rightarrow> credentials \<Rightarrow> req_body \<Rightarrow> outcome" where
  "convert w creds body =
     (case body of
        NoBody \<Rightarrow> \<lparr>response = onRejection w, calls = [], slot = creds\<rparr>
      | Form markdownText \<Rightarrow>
     (if falsy (access_token creds) then
        \<lparr>response = Some (Send 401 (js ''Por favor, autentique-se com o Google primeiro atrav'' @
           [0xE9] @ js ''s do bot'' @ [0xE3] @ js ''o de login na p'' @ [0xE1] @ js ''gina inicial.'')),
         calls = [], slot = creds\<rparr>
      else
        (case markdownText of
           None \<Rightarrow> \<lparr>response = onRejection w, calls = [], slot = creds\<rparr>
         | Some text \<Rightarrow>
             (let fragments = slidesContent text;
                  title = js ''Apresenta'' @ [0xE7, 0xE3] @ js ''o Gerada do Markdown''
              in case presentations_create w title of
                   Inl error \<Rightarrow>
                     \<lparr>response = Some (convert_catch error),
                      calls = [PresentationsCreate title], slot = creds\<rparr>
                 | Inr presentationId \<Rightarrow>
                     (let rs = buildRequests (markdownit_parse w) (Date_now w) fragments;
                          presentationUrl = js ''https://docs.google.com/presentation/d/'' @
                            presentationId @ js ''/edit''
                      in if length rs > 0 then
                           (case presentations_batchUpdate w presentationId rs of
                              Inl error \<Rightarrow>
                                \<lparr>response = Some (convert_catch error),
                                 calls = [PresentationsCreate title, BatchUpdate presentationId rs],
                                 slot = creds\<rparr>
                            | Inr u \<Rightarrow>
                                \<lparr>response = Some (Render (js ''success'') (PresentationUrl presentationUrl)),
                                 calls = [PresentationsCreate title, BatchUpdate presentationId rs],
                                 slot = creds\<rparr>)
                         else
                           \<lparr>response = Some (Render (js ''success'') (PresentationUrl presentationUrl)),
                            calls = [PresentationsCreate title], slot = creds\<rparr>)))))"


section \<open>Sample inputs\<close>

text \<open>Concrete collaborators and requests, on which the theorems below are instantiated.\<close>

definition sample_error :: js_error where
  "sample_error = \<lparr>name = js ''Error'', code = Some 400, message = js ''invalid_grant''\<rparr>"

definition sample_tokens :: credentials where
  "sample_tokens = \<lparr>access_token = Some (js ''ya29.a0''), refresh_token = Some (js ''1//0g'')\<rparr>"


text \<open>
  The token streams of markdown-it for three fragments: a heading and a paragraph, a
  tight bullet list (the parser wraps the content of every list item in a paragraph), and
  a heading with no text.
\<close>

definition tok :: "string \<Rightarrow> string \<Rightarrow> token" where
  "tok t c = \<lparr>type = js t, content = js c\<rparr>"

definition hello_tokens :: "token list" where
  "hello_tokens =
     [tok ''heading_open'' [], tok ''inline'' ''Hello'', tok ''heading_close'' [],
      tok ''paragraph_open'' [], tok ''inline'' ''World'', tok ''paragraph_close'' []]"

definition list_tokens :: "token list" where
  "list_tokens =
     [tok ''bullet_list_open'' [],
      tok ''list_item_open'' [], tok ''paragraph_open'' [], tok ''inline'' ''a'',
      tok ''paragraph_close'' [], tok ''list_item_close'' [],
      tok ''list_item_open'' [], tok ''paragraph_open'' [], tok ''inline'' ''b'',
      tok ''paragraph_close'' [], tok ''list_item_close'' [],
      tok ''bullet_list_close'' []]"

definition empty_heading_tokens :: "token list" where
  "empty_heading_tokens =
     [tok ''heading_open'' [], tok ''inline'' [], tok ''heading_close'' []]"

text \<open>
  The token stream of markdown-it for a fragment with two headings and a paragraph
  between them: \<open># A\<close>, \<open>text\<close>, \<open>## B\<close>.
\<close>

definition two_headings_tokens :: "token list" where
  "two_headings_tokens =
     [tok ''heading_open'' [], tok ''inline'' ''A'', tok ''heading_close'' [],
      tok ''paragraph_open'' [], tok ''inline'' ''text'', tok ''paragraph_close'' [],
      tok ''heading_open'' [], tok ''inline'' ''B'', tok ''heading_close'' []]"

definition sample_parse :: "jsstring \<Rightarrow> token list" where
  "sample_parse s =
     (if s = js ''# Hello\<newline>\<newline>World'' then hello_tokens
      else if s = js ''- a\<newline>- b'' then list_tokens
      else if s = js ''#'' then empty_heading_tokens
      else [])"

text \<open>
  A world in which the token exchange throws, the Slides API answers, and the framework
  answers a rejected handler with status 500, as express 5 does.
\<close>

definition sample_world :: world where
  "sample_world =
     \<lparr>getToken = (\<lambda>c. Inl sample_error),
      presentations_create = (\<lambda>t. Inr (js ''p1'')),
      presentations_batchUpdate = (\<lambda>p rs. Inr ()),
      Date_now = (\<lambda>k. 1700000000000),
      markdownit_parse = sample_parse,
      onRejection = Some (Send 500 (js ''Internal Server Error''))\<rparr>"


section \<open>Decimal digits\<close>

lemma digits_nonempty: "digits n \<noteq> []"
  by (subst digits.simps) simp

lemma unat_digit: "a < 10 \<Longrightarrow> unat (of_nat (48 + a) :: char16) = 48 + a"
  by (simp only: unat_of_nat) simp

lemma digit_unit_inj:
  assumes "a < 10" "b < 10" "(of_nat (48 + a) :: char16) = of_nat (48 + b)"
  shows "a = b"
proof -
  have "unat (of_nat (48 + a) :: char16) = unat (of_nat (48 + b) :: char16)"
    by (simp only: assms(3))
  then have "48 + a = 48 + b"
    by (simp only: unat_digit [OF assms(1)] unat_digit [OF assms(2)])
  then show ?thesis by simp
qed

lemma digit_unit_not_underscore:
  assumes "a < 10" shows "(of_nat (48 + a) :: char16) \<noteq> 0x5F"
proof
  assume h: "(of_nat (48 + a) :: char16) = 0x5F"
  have "unat (0x5F :: char16) = 48 + a" using unat_digit [OF assms] by (simp only: h)
  then show False using assms by simp
qed

lemma digits_no_underscore: "0x5F \<notin> set (digits n)"
proof (induction n rule: digits.induct)
  case (1 n)
  show ?case
  proof (cases "n < 10")
    case True
    then show ?thesis using digit_unit_not_underscore [of n]
      by (subst digits.simps) auto
  next
    case False
    have "n mod 10 < 10" by simp
    from digit_unit_not_underscore [OF this] 1 False show ?thesis
      by (subst digits.simps) auto
  qed
qed

lemma digits_inj: "digits n = digits m \<Longrightarrow> n = m"
proof (induction n arbitrary: m rule: digits.induct)
  case (1 n)
  show ?case
  proof (cases "n < 10")
    case n: True
    show ?thesis
    proof (cases "m < 10")
      case True
      with n 1(2) show ?thesis
        by (simp add: digits.simps [of n] digits.simps [of m] digit_unit_inj)
    next
      case False
      with n 1(2) digits_nonempty [of "m div 10"] show ?thesis
        by (simp add: digits.simps [of n] digits.simps [of m])
    qed
  next
    case n: False
    show ?thesis
    proof (cases "m < 10")
      case True
      with n 1(2) digits_nonempty [of "n div 10"] show ?thesis
        by (simp add: digits.simps [of n] digits.simps [of m])
    next
      case False
      with n 1(2) have e: "digits (n div 10) = digits (m div 10)"
        and d: "(of_nat (48 + n mod 10) :: char16) = of_nat (48 + m mod 10)"
        by (simp_all add: digits.simps [of n] digits.simps [of m])
      from 1(1) [OF n e] have "n div 10 = m div 10" .
      moreover from d have "n mod 10 = m mod 10"
        by (intro digit_unit_inj) simp_all
      ultimately show ?thesis by (metis div_mult_mod_eq)
    qed
  qed
qed

lemma suffix_digits_inj:
  assumes "x @ [0x5F] @ digits n = y @ [0x5F] @ digits m"
  shows "n = m"
proof -
  have "rev (digits n) @ [0x5F] @ rev x = rev (digits m) @ [0x5F] @ rev y"
    using arg_cong [OF assms, of rev] by simp
  then have "takeWhile (\<lambda>c. c \<noteq> 0x5F) (rev (digits n) @ [0x5F] @ rev x) =
             takeWhile (\<lambda>c. c \<noteq> 0x5F) (rev (digits m) @ [0x5F] @ rev y)" by simp
  moreover have "\<And>k z. takeWhile (\<lambda>c. c \<noteq> 0x5F) (rev (digits k) @ [0x5F] @ z) = rev (digits k)"
    using digits_no_underscore by (subst takeWhile_append2) auto
  ultimately have "rev (digits n) = rev (digits m)" by simp
  then show ?thesis using digits_inj by simp
qed


section \<open>The scan as a fold over adjacent tokens\<close>

lemma type_names_differ:
  "js ''inline'' \<noteq> js ''heading_open''"
  "js ''inline'' \<noteq> js ''paragraph_open''"
  "js ''inline'' \<noteq> js ''list_item_open''"
  "js ''heading_open'' \<noteq> js ''paragraph_open''"
  "js ''heading_open'' \<noteq> js ''list_item_open''"
  "js ''paragraph_open'' \<noteq> js ''list_item_open''"
  by (simp_all add: js_def)

lemma length_pairs: "length (zip tokens (tl tokens)) = length tokens - 1"
  by simp

lemma nth_pairs:
  "i + 1 < length tokens \<Longrightarrow> zip tokens (tl tokens) ! i = (tokens ! i, tokens ! (i + 1))"
  by (simp add: nth_tl)

lemma drop_pairs:
  "i + 1 < length tokens \<Longrightarrow>
   drop i (zip tokens (tl tokens)) = (tokens ! i, tokens ! (i + 1)) # drop (i + 1) (zip tokens (tl tokens))"
  using Cons_nth_drop_Suc [of i "zip tokens (tl tokens)"] nth_pairs [of i tokens] by simp

lemma scanPair_after_inline:
  "type (fst p) = js ''inline'' \<Longrightarrow> scanPair acc p = acc"
  using type_names_differ by (simp add: scanPair_def)

text \<open>The pair read at an inline token changes nothing, so skipping it is skipping one step of the fold.\<close>

lemma fold_skip_inline:
  assumes "i < length tokens" "type (tokens ! i) = js ''inline''"
  shows "foldl scanPair acc (drop i (zip tokens (tl tokens))) =
         foldl scanPair acc (drop (i + 1) (zip tokens (tl tokens)))"
proof (cases "i + 1 < length tokens")
  case True
  from drop_pairs [OF True] assms(2) show ?thesis
    by (simp add: scanPair_after_inline)
next
  case False
  then show ?thesis by simp
qed

lemma scan_end: "\<not> i < length tokens \<Longrightarrow> scanTokens tokens i t b = (t, b)"
  by (subst scanTokens.simps) simp

lemma scan_heading:
  assumes "i + 1 < length tokens" "type (tokens ! i) = js ''heading_open''"
    "type (tokens ! (i + 1)) = js ''inline''"
  shows "scanTokens tokens i t b = scanTokens tokens (i + 2) (content (tokens ! (i + 1))) b"
  using assms by (subst scanTokens.simps) (simp add: Let_def)

lemma scan_body:
  assumes "i + 1 < length tokens"
    "type (tokens ! i) = js ''paragraph_open'' \<or> type (tokens ! i) = js ''list_item_open''"
    "type (tokens ! (i + 1)) = js ''inline''"
  shows "scanTokens tokens i t b =
         scanTokens tokens (i + 2) t
           (b @ [if type (tokens ! i) = js ''list_item_open''
                 then [0x2022, 0x20] @ content (tokens ! (i + 1))
                 else content (tokens ! (i + 1))])"
  using assms type_names_differ by (subst scanTokens.simps) (auto simp add: Let_def)

lemma scan_skip:
  assumes "i < length tokens"
    "\<not> (i + 1 < length tokens \<and> type (tokens ! (i + 1)) = js ''inline'') \<or>
     (type (tokens ! i) \<noteq> js ''heading_open'' \<and> type (tokens ! i) \<noteq> js ''paragraph_open'' \<and>
      type (tokens ! i) \<noteq> js ''list_item_open'')"
  shows "scanTokens tokens i t b = scanTokens tokens (i + 1) t b"
  using assms by (subst scanTokens.simps) (auto simp add: Let_def)

lemma scanPair_heading:
  "type x = js ''heading_open'' \<Longrightarrow> type y = js ''inline'' \<Longrightarrow>
   scanPair (t, b) (x, y) = (content y, b)"
  by (simp add: scanPair_def)

lemma scanPair_body:
  "type x = js ''paragraph_open'' \<or> type x = js ''list_item_open'' \<Longrightarrow> type y = js ''inline'' \<Longrightarrow>
   scanPair (t, b) (x, y) =
     (t, b @ [if type x = js ''list_item_open'' then [0x2022, 0x20] @ content y else content y])"
  using type_names_differ by (auto simp add: scanPair_def)

lemma scanPair_skip:
  "type y \<noteq> js ''inline'' \<or>
   (type x \<noteq> js ''heading_open'' \<and> type x \<noteq> js ''paragraph_open'' \<and> type x \<noteq> js ''list_item_open'') \<Longrightarrow>
   scanPair acc (x, y) = acc"
  by (auto simp add: scanPair_def)

lemma scanTokens_fold:
  "scanTokens tokens i t b = foldl scanPair (t, b) (drop i (zip tokens (tl tokens)))"
proof (induction "length tokens - i" arbitrary: i t b rule: less_induct)
  case less
  show ?case
  proof (cases "i + 1 < length tokens")
    case False
    then have e: "drop i (zip tokens (tl tokens)) = []" by simp
    show ?thesis
    proof (cases "i < length tokens")
      case True
      with False have "scanTokens tokens i t b = scanTokens tokens (i + 1) t b"
        by (intro scan_skip) simp_all
      also from True False have "\<dots> = (t, b)" by (intro scan_end) simp
      finally show ?thesis using e by simp
    next
      case False
      then show ?thesis using e by (simp add: scan_end)
    qed
  next
    case n: True
    note d = drop_pairs [OF n]
    from n have m1: "length tokens - (i + 1) < length tokens - i"
      and m2: "length tokens - (i + 2) < length tokens - i" by simp_all
    show ?thesis
    proof (cases "type (tokens ! (i + 1)) = js ''inline''")
      case False
      with n have "scanTokens tokens i t b = scanTokens tokens (i + 1) t b"
        by (intro scan_skip) simp_all
      also have "\<dots> = foldl scanPair (t, b) (drop (i + 1) (zip tokens (tl tokens)))"
        by (rule less [OF m1])
      also from False have "\<dots> = foldl scanPair (t, b) (drop i (zip tokens (tl tokens)))"
        by (simp add: d scanPair_skip)
      finally show ?thesis .
    next
      case inl: True
      have sk: "foldl scanPair acc (drop (i + 1) (zip tokens (tl tokens))) =
                foldl scanPair acc (drop (i + 2) (zip tokens (tl tokens)))" for acc
        using fold_skip_inline [OF n inl, of acc] by simp
      consider (h) "type (tokens ! i) = js ''heading_open''"
        | (p) "type (tokens ! i) = js ''paragraph_open'' \<or> type (tokens ! i) = js ''list_item_open''"
        | (o) "type (tokens ! i) \<noteq> js ''heading_open'' \<and> type (tokens ! i) \<noteq> js ''paragraph_open'' \<and>
               type (tokens ! i) \<noteq> js ''list_item_open''"
        by blast
      then show ?thesis
      proof cases
        case h
        have "scanTokens tokens i t b = scanTokens tokens (i + 2) (content (tokens ! (i + 1))) b"
          by (rule scan_heading [OF n h inl])
        also have "\<dots> = foldl scanPair (content (tokens ! (i + 1)), b)
                            (drop (i + 2) (zip tokens (tl tokens)))"
          by (rule less [OF m2])
        also have "\<dots> = foldl scanPair (t, b) (drop i (zip tokens (tl tokens)))"
          by (simp only: d foldl_Cons scanPair_heading [OF h inl] sk)
        finally show ?thesis .
      next
        case p
        let ?b = "b @ [if type (tokens ! i) = js ''list_item_open''
                       then [0x2022, 0x20] @ content (tokens ! (i + 1))
                       else content (tokens ! (i + 1))]"
        have "scanTokens tokens i t b = scanTokens tokens (i + 2) t ?b"
          by (rule scan_body [OF n p inl])
        also have "\<dots> = foldl scanPair (t, ?b) (drop (i + 2) (zip tokens (tl tokens)))"
          by (rule less [OF m2])
        also have "\<dots> = foldl scanPair (t, b) (drop i (zip tokens (tl tokens)))"
          by (simp only: d foldl_Cons scanPair_body [OF p inl] sk)
        finally show ?thesis .
      next
        case o
        with n have "scanTokens tokens i t b = scanTokens tokens (i + 1) t b"
          by (intro scan_skip) simp_all
        also have "\<dots> = foldl scanPair (t, b) (drop (i + 1) (zip tokens (tl tokens)))"
          by (rule less [OF m1])
        also from o have "\<dots> = foldl scanPair (t, b) (drop i (zip tokens (tl tokens)))"
          by (simp add: d scanPair_skip)
        finally show ?thesis .
      qed
    qed
  qed
qed


lemma fold_title_keep:
  "\<forall>p \<in> set ps. \<not> (type (fst p) = js ''heading_open'' \<and> type (snd p) = js ''inline'') \<Longrightarrow>
   fst (foldl scanPair (t, b) ps) = t"
proof (induction ps arbitrary: t b)
  case Nil
  then show ?case by simp
next
  case (Cons p ps)
  from Cons.prems have "fst (scanPair (t, b) p) = t"
    by (auto simp add: scanPair_def)
  moreover obtain t' b' where e: "scanPair (t, b) p = (t', b')" by (cases "scanPair (t, b) p")
  ultimately have "t' = t" by simp
  with Cons.IH [of t b'] Cons.prems e show ?case by simp
qed

lemma fold_body_members:
  "e \<in> set (snd (foldl scanPair (t, b) ps)) \<Longrightarrow>
   e \<in> set b \<or>
   (\<exists>p \<in> set ps. (type (fst p) = js ''paragraph_open'' \<or> type (fst p) = js ''list_item_open'') \<and>
      type (snd p) = js ''inline'' \<and>
      (e = content (snd p) \<or> e = [0x2022, 0x20] @ content (snd p)))"
proof (induction ps arbitrary: t b)
  case Nil
  then show ?case by simp
next
  case (Cons p ps)
  obtain t' b' where e: "scanPair (t, b) p = (t', b')" by (cases "scanPair (t, b) p")
  with Cons.prems have "e \<in> set (snd (foldl scanPair (t', b') ps))" by simp
  from Cons.IH [OF this] consider (old) "e \<in> set b'"
    | (new) "\<exists>p \<in> set ps. (type (fst p) = js ''paragraph_open'' \<or> type (fst p) = js ''list_item_open'') \<and>
      type (snd p) = js ''inline'' \<and>
      (e = content (snd p) \<or> e = [0x2022, 0x20] @ content (snd p))" by blast
  then show ?case
  proof cases
    case old
    from e have "b' = b \<or>
      ((type (fst p) = js ''paragraph_open'' \<or> type (fst p) = js ''list_item_open'') \<and>
        type (snd p) = js ''inline'' \<and>
        (b' = b @ [content (snd p)] \<or> b' = b @ [[0x2022, 0x20] @ content (snd p)]))"
      by (auto simp add: scanPair_def split: if_splits)
    with old show ?thesis by auto
  next
    case new
    then show ?thesis by auto
  qed
qed

lemma in_set_drop_nth:
  "x \<in> set (drop n xs) \<longleftrightarrow> (\<exists>i. n \<le> i \<and> i < length xs \<and> x = xs ! i)"
proof
  assume "x \<in> set (drop n xs)"
  then obtain i where i: "i < length (drop n xs)" "x = drop n xs ! i"
    by (auto simp add: in_set_conv_nth)
  then have "n \<le> n + i \<and> n + i < length xs \<and> x = xs ! (n + i)" by simp
  then show "\<exists>i. n \<le> i \<and> i < length xs \<and> x = xs ! i" by blast
next
  assume "\<exists>i. n \<le> i \<and> i < length xs \<and> x = xs ! i"
  then obtain i where i: "n \<le> i" "i < length xs" "x = xs ! i" by blast
  then have "i - n < length (drop n xs)" "drop n xs ! (i - n) = x" by simp_all
  then show "x \<in> set (drop n xs)" by (metis nth_mem)
qed

lemma pair_at_index:
  assumes "p \<in> set (drop n (zip tokens (tl tokens)))"
  obtains k where "n \<le> k" "k + 1 < length tokens" "p = (tokens ! k, tokens ! (k + 1))"
proof -
  from assms obtain k where k: "n \<le> k" "k < length (zip tokens (tl tokens))"
    "p = zip tokens (tl tokens) ! k"
    using in_set_drop_nth [of p n "zip tokens (tl tokens)"] by blast
  from k(2) have "k + 1 < length tokens" by simp
  with k nth_pairs [OF this] that show thesis by simp
qed

lemma title_from_last_heading:
  assumes j: "j + 1 < length tokens" "type (tokens ! j) = js ''heading_open''"
      "type (tokens ! (j + 1)) = js ''inline''"
    and later: "\<forall>k. j < k \<and> k + 1 < length tokens \<and> type (tokens ! k) = js ''heading_open'' \<longrightarrow>
                  type (tokens ! (k + 1)) \<noteq> js ''inline''"
  shows "fst (scanTokens tokens 0 t b) = content (tokens ! (j + 1))"
proof -
  let ?ps = "zip tokens (tl tokens)"
  from j(1) have "j < length ?ps" by simp
  then have split: "?ps = take j ?ps @ (tokens ! j, tokens ! (j + 1)) # drop (j + 1) ?ps"
    using id_take_nth_drop [of j ?ps] nth_pairs [OF j(1)] by simp
  obtain t1 b1 where f1: "foldl scanPair (t, b) (take j ?ps) = (t1, b1)"
    by (cases "foldl scanPair (t, b) (take j ?ps)")
  have keep: "\<forall>p \<in> set (drop (j + 1) ?ps).
                \<not> (type (fst p) = js ''heading_open'' \<and> type (snd p) = js ''inline'')"
  proof
    fix p assume "p \<in> set (drop (j + 1) ?ps)"
    then obtain k where "j + 1 \<le> k" "k + 1 < length tokens" "p = (tokens ! k, tokens ! (k + 1))"
      by (rule pair_at_index)
    with later show "\<not> (type (fst p) = js ''heading_open'' \<and> type (snd p) = js ''inline'')"
      by auto
  qed
  have "scanTokens tokens 0 t b = foldl scanPair (t, b) ?ps"
    by (simp add: scanTokens_fold)
  also have "\<dots> = foldl scanPair (t, b) (take j ?ps @ (tokens ! j, tokens ! (j + 1)) # drop (j + 1) ?ps)"
    using split by simp
  also have "\<dots> = foldl scanPair (content (tokens ! (j + 1)), b1) (drop (j + 1) ?ps)"
    by (simp only: foldl_append foldl_Cons f1 scanPair_heading [OF j(2) j(3)])
  finally show ?thesis
    by (simp only: fold_title_keep [OF keep])
qed

lemma title_without_heading:
  assumes "\<forall>k < length tokens. type (tokens ! k) \<noteq> js ''heading_open''"
  shows "fst (scanTokens tokens 0 t b) = t"
proof -
  have "\<forall>p \<in> set (zip tokens (tl tokens)).
          \<not> (type (fst p) = js ''heading_open'' \<and> type (snd p) = js ''inline'')"
  proof
    fix p assume "p \<in> set (zip tokens (tl tokens))"
    then have "fst p \<in> set tokens" by (metis prod.collapse set_zip_leftD)
    with assms show "\<not> (type (fst p) = js ''heading_open'' \<and> type (snd p) = js ''inline'')"
      by (auto simp add: in_set_conv_nth)
  qed
  from fold_title_keep [OF this] show ?thesis by (simp add: scanTokens_fold)
qed

lemma body_lines_origin:
  assumes "e \<in> set (snd (scanTokens tokens 0 t []))"
  shows "\<exists>k. k + 1 < length tokens \<and>
           (type (tokens ! k) = js ''paragraph_open'' \<or> type (tokens ! k) = js ''list_item_open'') \<and>
           type (tokens ! (k + 1)) = js ''inline'' \<and>
           (e = content (tokens ! (k + 1)) \<or> e = [0x2022, 0x20] @ content (tokens ! (k + 1)))"
proof -
  from assms have "e \<in> set (snd (foldl scanPair (t, []) (zip tokens (tl tokens))))"
    by (simp add: scanTokens_fold)
  from fold_body_members [OF this] obtain p where p: "p \<in> set (drop 0 (zip tokens (tl tokens)))"
    and o: "type (fst p) = js ''paragraph_open'' \<or> type (fst p) = js ''list_item_open''"
    and i: "type (snd p) = js ''inline''"
    and e: "e = content (snd p) \<or> e = [0x2022, 0x20] @ content (snd p)"
    by auto
  from p obtain k where "k + 1 < length tokens" "p = (tokens ! k, tokens ! (k + 1))"
    by (rule pair_at_index)
  with o i e show ?thesis by auto
qed

lemma later_pairs_check:
  assumes "\<forall>p \<in> set (drop (j + 1) (zip tokens (tl tokens))).
             \<not> (type (fst p) = js ''heading_open'' \<and> type (snd p) = js ''inline'')"
  shows "\<forall>k. j < k \<and> k + 1 < length tokens \<and> type (tokens ! k) = js ''heading_open'' \<longrightarrow>
               type (tokens ! (k + 1)) \<noteq> js ''inline''"
proof (intro allI impI)
  fix k assume "j < k \<and> k + 1 < length tokens \<and> type (tokens ! k) = js ''heading_open''"
  then have k: "j < k" "k + 1 < length tokens" "type (tokens ! k) = js ''heading_open''"
    by simp_all
  then have "k < length (zip tokens (tl tokens))" "j + 1 \<le> k" by simp_all
  then have "zip tokens (tl tokens) ! k \<in> set (drop (j + 1) (zip tokens (tl tokens)))"
    using in_set_drop_nth [of "zip tokens (tl tokens) ! k" "j + 1" "zip tokens (tl tokens)"]
    by blast
  then have "(tokens ! k, tokens ! (k + 1)) \<in> set (drop (j + 1) (zip tokens (tl tokens)))"
    by (simp only: nth_pairs [OF k(2)])
  with assms k(3) show "type (tokens ! (k + 1)) \<noteq> js ''inline''"
    by auto
qed


section \<open>The loop in closed form\<close>

lemma length_slideRequests: "length (slideRequests sc t1 t2 t3 n) = 7"
  by (simp add: slideRequests_def)

lemma slideStep_eq:
  "slideStep parse now st slideMd =
     \<lparr>requests = requests st @
        slideRequests (scanTokens (parse slideMd) 0 [] [])
          (now (readings st)) (now (readings st + 1)) (now (readings st + 2)) (slideCount st),
      slideCount = slideCount st + 1, readings = readings st + 3\<rparr>"
  by (simp add: slideStep_def slideRequests_def Let_def split: prod.split)

lemma slideLoop_eq:
  "requests (slideLoop parse now st fragments) =
     requests st @ batchFrom parse now (slideCount st) (readings st) fragments"
  by (induction fragments arbitrary: st) (simp_all add: slideStep_eq)

lemma buildRequests_eq: "buildRequests parse now fragments = batchFrom parse now 0 0 fragments"
  by (simp add: buildRequests_def slideLoop_eq)

lemma length_batchFrom: "length (batchFrom parse now n r fragments) = 7 * length fragments"
  by (induction fragments arbitrary: n r) (simp_all add: length_slideRequests)

lemma batchFrom_group:
  "k < length fragments \<Longrightarrow>
   take 7 (drop (7 * k) (batchFrom parse now n r fragments)) =
     slideRequests (scanTokens (parse (fragments ! k)) 0 [] [])
       (now (r + 3 * k)) (now (r + 3 * k + 1)) (now (r + 3 * k + 2)) (n + k)"
proof (induction fragments arbitrary: n r k)
  case Nil
  then show ?case by simp
next
  case (Cons slideMd rest)
  show ?case
  proof (cases k)
    case 0
    then show ?thesis by (simp add: length_slideRequests)
  next
    case (Suc j)
    with Cons.prems have "j < length rest" by simp
    from Cons.IH [OF this, of "n + 1" "r + 3"] Suc show ?thesis
      by (simp add: length_slideRequests ac_simps)
  qed
qed


section \<open>Identifiers\<close>

lemma id_kinds_differ:
  "slideObjectId t n \<noteq> titleShapeObjectId t' m"
  "slideObjectId t n \<noteq> bodyShapeObjectId t' m"
  "titleShapeObjectId t n \<noteq> bodyShapeObjectId t' m"
  by (simp_all add: slideObjectId_def titleShapeObjectId_def bodyShapeObjectId_def js_def)

lemma id_index_inj:
  "slideObjectId t n = slideObjectId t' m \<Longrightarrow> n = m"
  "titleShapeObjectId t n = titleShapeObjectId t' m \<Longrightarrow> n = m"
  "bodyShapeObjectId t n = bodyShapeObjectId t' m \<Longrightarrow> n = m"
  using suffix_digits_inj [of "js ''slide_'' @ Number_toString t" n "js ''slide_'' @ Number_toString t'" m]
    suffix_digits_inj [of "js ''title_shape_'' @ Number_toString t" n "js ''title_shape_'' @ Number_toString t'" m]
    suffix_digits_inj [of "js ''body_shape_'' @ Number_toString t" n "js ''body_shape_'' @ Number_toString t'" m]
  by (simp_all add: slideObjectId_def titleShapeObjectId_def bodyShapeObjectId_def js_def)

lemma createdObjectIds_append:
  "createdObjectIds (xs @ ys) = createdObjectIds xs @ createdObjectIds ys"
  by (induction xs rule: createdObjectIds.induct) simp_all

lemma createdObjectIds_slideRequests:
  "createdObjectIds (slideRequests sc t1 t2 t3 n) =
     [slideObjectId t1 n, titleShapeObjectId t2 n, bodyShapeObjectId t3 n]"
  by (simp add: slideRequests_def)

lemma created_ids_index:
  "x \<in> set (createdObjectIds (batchFrom parse now n r fragments)) \<Longrightarrow>
   \<exists>k t. n \<le> k \<and> (x = slideObjectId t k \<or> x = titleShapeObjectId t k \<or> x = bodyShapeObjectId t k)"
proof (induction fragments arbitrary: n r)
  case Nil
  then show ?case by simp
next
  case (Cons slideMd rest)
  from Cons.prems consider
    (here) "x = slideObjectId (now r) n \<or> x = titleShapeObjectId (now (r + 1)) n \<or>
            x = bodyShapeObjectId (now (r + 2)) n"
    | (later) "x \<in> set (createdObjectIds (batchFrom parse now (n + 1) (r + 3) rest))"
    by (auto simp: createdObjectIds_append createdObjectIds_slideRequests)
  then show ?case
  proof cases
    case here
    then show ?thesis by (elim disjE) (metis order_refl)+
  next
    case later
    from Cons.IH [OF this] obtain k t where "n + 1 \<le> k"
      "x = slideObjectId t k \<or> x = titleShapeObjectId t k \<or> x = bodyShapeObjectId t k"
      by blast
    then have "n \<le> k \<and> (x = slideObjectId t k \<or> x = titleShapeObjectId t k \<or> x = bodyShapeObjectId t k)"
      by simp
    then show ?thesis by blast
  qed
qed

lemma id_not_later:
  assumes "x \<in> set (createdObjectIds (batchFrom parse now (n + 1) r fragments))"
  shows "x \<noteq> slideObjectId t n" "x \<noteq> titleShapeObjectId t n" "x \<noteq> bodyShapeObjectId t n"
proof -
  from created_ids_index [OF assms] obtain k t' where k: "n + 1 \<le> k"
    and x: "x = slideObjectId t' k \<or> x = titleShapeObjectId t' k \<or> x = bodyShapeObjectId t' k"
    by blast
  from k have "k \<noteq> n" by simp
  with x show "x \<noteq> slideObjectId t n" "x \<noteq> titleShapeObjectId t n" "x \<noteq> bodyShapeObjectId t n"
    using id_kinds_differ id_index_inj by metis+
qed

lemma distinct_batchFrom: "distinct (createdObjectIds (batchFrom parse now n r fragments))"
proof (induction fragments arbitrary: n r)
  case Nil
  then show ?case by simp
next
  case (Cons slideMd rest)
  have "distinct [slideObjectId (now r) n, titleShapeObjectId (now (r + 1)) n,
                  bodyShapeObjectId (now (r + 2)) n]"
    using id_kinds_differ by simp
  moreover have "set [slideObjectId (now r) n, titleShapeObjectId (now (r + 1)) n,
                      bodyShapeObjectId (now (r + 2)) n] \<inter>
                 set (createdObjectIds (batchFrom parse now (n + 1) (r + 3) rest)) = {}"
  proof -
    have "x \<notin> set [slideObjectId (now r) n, titleShapeObjectId (now (r + 1)) n,
                      bodyShapeObjectId (now (r + 2)) n]"
      if "x \<in> set (createdObjectIds (batchFrom parse now (n + 1) (r + 3) rest))" for x
      using id_not_later [OF that] by simp
    then show ?thesis by blast
  qed
  ultimately show ?case
    using Cons.IH [of "n + 1" "r + 3"]
    by (simp only: batchFrom.simps createdObjectIds_append createdObjectIds_slideRequests
          distinct_append)
qed


section \<open>The routes: authentication\<close>




text \<open>
  Claim C7. When the token exchange of \<open>GET /auth/google/callback\<close> throws, the route
  answers with status 500 and the message of an authentication failure, and the
  credential slot afterwards is the slot before: \<open>setCredentials\<close> runs only behind a
  successful exchange, where the slot becomes the tokens returned.
\<close>

theorem callback_exchange_throws:
  "(getToken w c = Inl error \<longrightarrow>
      response (auth_google_callback w creds c) =
        Some (Send 500 (js ''Erro na autentica'' @ [0xE7, 0xE3] @ js ''o com o Google.'')) \<and>
      slot (auth_google_callback w creds c) = creds) \<and>
   (slot (auth_google_callback w creds c) \<noteq> creds \<longrightarrow>
      (\<exists>tokens. getToken w c = Inr tokens \<and> slot (auth_google_callback w creds c) = tokens))"
  by (cases "getToken w c") (simp_all add: auth_google_callback_def)

theorem callback_exchange_throws_witness:
  "getToken sample_world (Some (js ''4/0A'')) = Inl sample_error \<and>
   response (auth_google_callback sample_world sample_tokens (Some (js ''4/0A''))) =
     Some (Send 500 (js ''Erro na autentica'' @ [0xE7, 0xE3] @ js ''o com o Google.'')) \<and>
   slot (auth_google_callback sample_world sample_tokens (Some (js ''4/0A''))) = sample_tokens"
proof -
  have h: "getToken sample_world (Some (js ''4/0A'')) = Inl sample_error"
    by (simp add: sample_world_def)
  from callback_exchange_throws [of sample_world "Some (js ''4/0A'')" sample_error sample_tokens] h
  show ?thesis by simp
qed

section \<open>Concrete scans\<close>

lemma scan_hello_tokens: "scanTokens hello_tokens 0 [] [] = (js ''Hello'', [js ''World''])"
  by (simp add: scanTokens.simps hello_tokens_def tok_def js_def)

lemma scan_list_tokens: "scanTokens list_tokens 0 [] [] = ([], [js ''a'', js ''b''])"
  by (simp add: scanTokens.simps list_tokens_def tok_def js_def)

lemma scan_empty_heading_tokens: "scanTokens empty_heading_tokens 0 [] [] = ([], [])"
  by (simp add: scanTokens.simps empty_heading_tokens_def tok_def js_def)

lemma sample_parse_values:
  "sample_parse (js ''# Hello\<newline>\<newline>World'') = hello_tokens"
  "sample_parse (js ''- a\<newline>- b'') = list_tokens"
  "sample_parse (js ''#'') = empty_heading_tokens"
  by (simp_all add: sample_parse_def js_def)

lemma sample_ids:
  "slideObjectId 1700000000000 0 = js ''slide_1700000000000_0''"
  "titleShapeObjectId 1700000000000 0 = js ''title_shape_1700000000000_0''"
  "bodyShapeObjectId 1700000000000 0 = js ''body_shape_1700000000000_0''"
  "slideObjectId 1700000000000 1 = js ''slide_1700000000000_1''"
  "titleShapeObjectId 1700000000000 1 = js ''title_shape_1700000000000_1''"
  "bodyShapeObjectId 1700000000000 1 = js ''body_shape_1700000000000_1''"
  "slideObjectId 1700000000000 (Suc 0) = js ''slide_1700000000000_1''"
  "titleShapeObjectId 1700000000000 (Suc 0) = js ''title_shape_1700000000000_1''"
  "bodyShapeObjectId 1700000000000 (Suc 0) = js ''body_shape_1700000000000_1''"
  by (simp_all add: slideObjectId_def titleShapeObjectId_def bodyShapeObjectId_def
        Number_toString_def digits.simps js_def)


section \<open>The requests of a slide\<close>

text \<open>
  Claim C1. The batch holds exactly seven requests for every fragment, and the seven of
  fragment \<open>k\<close> are, in this order: \<open>createSlide\<close> with layout \<open>TITLE_AND_BODY\<close> and
  \<open>insertionIndex\<close> \<open>k\<close>; \<open>createShape\<close> of the title box on that slide, translated by
  (50, 50) pt, of size 600 by 50 pt; \<open>insertText\<close> into the title box; \<open>updateTextStyle\<close>
  on the title box, 24 pt and bold, over the range \<open>ALL\<close>; \<open>createShape\<close> of the body
  box, translated by (50, 120) pt, of size 600 by 350 pt; \<open>insertText\<close> into the body
  box, of the body lines joined by two line feeds; \<open>updateTextStyle\<close> on the body box,
  14 pt, over the range \<open>ALL\<close>. No fragment gets fewer, and no group is partial.
\<close>

theorem seven_requests_per_fragment:
  "length (buildRequests parse now fragments) = 7 * length fragments \<and>
   (\<forall>k < length fragments.
      take 7 (drop (7 * k) (buildRequests parse now fragments)) =
        [CreateSlide (slideObjectId (now (3 * k)) k) k (js ''TITLE_AND_BODY''),
         CreateShape (titleShapeObjectId (now (3 * k + 1)) k) (js ''TEXT_BOX'')
           (ElementProperties (slideObjectId (now (3 * k)) k) (Transform 1 1 50 50 (js ''PT''))
              (Size (Dimension 600 (js ''PT'')) (Dimension 50 (js ''PT'')))),
         InsertText (titleShapeObjectId (now (3 * k + 1)) k)
           (titleText (fst (scanTokens (parse (fragments ! k)) 0 [] [])) k),
         UpdateTextStyle (titleShapeObjectId (now (3 * k + 1)) k) (js ''ALL'')
           (TextStyle (Dimension 24 (js ''PT'')) (Some True)) (js ''fontSize,bold''),
         CreateShape (bodyShapeObjectId (now (3 * k + 2)) k) (js ''TEXT_BOX'')
           (ElementProperties (slideObjectId (now (3 * k)) k) (Transform 1 1 50 120 (js ''PT''))
              (Size (Dimension 600 (js ''PT'')) (Dimension 350 (js ''PT'')))),
         InsertText (bodyShapeObjectId (now (3 * k + 2)) k)
           (join (snd (scanTokens (parse (fragments ! k)) 0 [] [])) [0x0A, 0x0A]),
         UpdateTextStyle (bodyShapeObjectId (now (3 * k + 2)) k) (js ''ALL'')
           (TextStyle (Dimension 14 (js ''PT'')) None) (js ''fontSize'')])"
proof (intro conjI allI impI)
  show "length (buildRequests parse now fragments) = 7 * length fragments"
    by (simp add: buildRequests_eq length_batchFrom)
next
  fix k assume "k < length fragments"
  from batchFrom_group [OF this, of parse now 0 0]
  show "take 7 (drop (7 * k) (buildRequests parse now fragments)) =
        [CreateSlide (slideObjectId (now (3 * k)) k) k (js ''TITLE_AND_BODY''),
         CreateShape (titleShapeObjectId (now (3 * k + 1)) k) (js ''TEXT_BOX'')
           (ElementProperties (slideObjectId (now (3 * k)) k) (Transform 1 1 50 50 (js ''PT''))
              (Size (Dimension 600 (js ''PT'')) (Dimension 50 (js ''PT'')))),
         InsertText (titleShapeObjectId (now (3 * k + 1)) k)
           (titleText (fst (scanTokens (parse (fragments ! k)) 0 [] [])) k),
         UpdateTextStyle (titleShapeObjectId (now (3 * k + 1)) k) (js ''ALL'')
           (TextStyle (Dimension 24 (js ''PT'')) (Some True)) (js ''fontSize,bold''),
         CreateShape (bodyShapeObjectId (now (3 * k + 2)) k) (js ''TEXT_BOX'')
           (ElementProperties (slideObjectId (now (3 * k)) k) (Transform 1 1 50 120 (js ''PT''))
              (Size (Dimension 600 (js ''PT'')) (Dimension 350 (js ''PT'')))),
         InsertText (bodyShapeObjectId (now (3 * k + 2)) k)
           (join (snd (scanTokens (parse (fragments ! k)) 0 [] [])) [0x0A, 0x0A]),
         UpdateTextStyle (bodyShapeObjectId (now (3 * k + 2)) k) (js ''ALL'')
           (TextStyle (Dimension 14 (js ''PT'')) None) (js ''fontSize'')]"
    by (simp only: buildRequests_eq slideRequests_def add_0 fst_conv snd_conv)
qed

theorem seven_requests_per_fragment_witness:
  "(1::nat) < length [js ''# Hello\<newline>\<newline>World'', js ''- a\<newline>- b''] \<and>
   length (buildRequests sample_parse (\<lambda>k. 1700000000000)
             [js ''# Hello\<newline>\<newline>World'', js ''- a\<newline>- b'']) = 14 \<and>
   take 7 (drop (7 * 1) (buildRequests sample_parse (\<lambda>k. 1700000000000)
             [js ''# Hello\<newline>\<newline>World'', js ''- a\<newline>- b''])) =
     [CreateSlide (js ''slide_1700000000000_1'') 1 (js ''TITLE_AND_BODY''),
      CreateShape (js ''title_shape_1700000000000_1'') (js ''TEXT_BOX'')
        (ElementProperties (js ''slide_1700000000000_1'') (Transform 1 1 50 50 (js ''PT''))
           (Size (Dimension 600 (js ''PT'')) (Dimension 50 (js ''PT'')))),
      InsertText (js ''title_shape_1700000000000_1'') (js ''Slide 2''),
      UpdateTextStyle (js ''title_shape_1700000000000_1'') (js ''ALL'')
        (TextStyle (Dimension 24 (js ''PT'')) (Some True)) (js ''fontSize,bold''),
      CreateShape (js ''body_shape_1700000000000_1'') (js ''TEXT_BOX'')
        (ElementProperties (js ''slide_1700000000000_1'') (Transform 1 1 50 120 (js ''PT''))
           (Size (Dimension 600 (js ''PT'')) (Dimension 350 (js ''PT'')))),
      InsertText (js ''body_shape_1700000000000_1'') (js ''a\<newline>\<newline>b''),
      UpdateTextStyle (js ''body_shape_1700000000000_1'') (js ''ALL'')
        (TextStyle (Dimension 14 (js ''PT'')) None) (js ''fontSize'')]"
proof -
  let ?fs = "[js ''# Hello\<newline>\<newline>World'', js ''- a\<newline>- b'']"
  note t = seven_requests_per_fragment [of sample_parse "\<lambda>k. 1700000000000" ?fs]
  have title: "titleText [] (Suc 0) = js ''Slide 2''"
    by (simp add: titleText_def digits.simps js_def)
  have body: "js ''a'' @ 0x0A # 0x0A # js ''b'' = js ''a\<newline>\<newline>b''"
    by (simp add: js_def)
  have a: "length (buildRequests sample_parse (\<lambda>k. 1700000000000) ?fs) = 14"
    using t [THEN conjunct1] by simp
  have b: "take 7 (drop (7 * 1) (buildRequests sample_parse (\<lambda>k. 1700000000000) ?fs)) =
     [CreateSlide (js ''slide_1700000000000_1'') 1 (js ''TITLE_AND_BODY''),
      CreateShape (js ''title_shape_1700000000000_1'') (js ''TEXT_BOX'')
        (ElementProperties (js ''slide_1700000000000_1'') (Transform 1 1 50 50 (js ''PT''))
           (Size (Dimension 600 (js ''PT'')) (Dimension 50 (js ''PT'')))),
      InsertText (js ''title_shape_1700000000000_1'') (js ''Slide 2''),
      UpdateTextStyle (js ''title_shape_1700000000000_1'') (js ''ALL'')
        (TextStyle (Dimension 24 (js ''PT'')) (Some True)) (js ''fontSize,bold''),
      CreateShape (js ''body_shape_1700000000000_1'') (js ''TEXT_BOX'')
        (ElementProperties (js ''slide_1700000000000_1'') (Transform 1 1 50 120 (js ''PT''))
           (Size (Dimension 600 (js ''PT'')) (Dimension 350 (js ''PT'')))),
      InsertText (js ''body_shape_1700000000000_1'') (js ''a\<newline>\<newline>b''),
      UpdateTextStyle (js ''body_shape_1700000000000_1'') (js ''ALL'')
        (TextStyle (Dimension 14 (js ''PT'')) None) (js ''fontSize'')]"
    using t [THEN conjunct2, rule_format, of 1]
    by (simp add: sample_parse_values scan_list_tokens sample_ids title body)
  from a b show ?thesis by simp
qed


text \<open>
  Claim C5. The identifiers that one batch creates (the slide, the title box and the body
  box of every fragment) are pairwise distinct, whatever the clock returns at each of its
  readings, in particular when every reading returns the same instant: the three kinds
  differ in their first code unit, and two identifiers of one kind end in the decimal
  digits of different slide counters.
\<close>

theorem created_ids_distinct:
  "distinct (createdObjectIds (buildRequests parse now fragments))"
  by (simp only: buildRequests_eq distinct_batchFrom)

theorem created_ids_distinct_witness:
  "createdObjectIds (buildRequests sample_parse (\<lambda>k. 1700000000000) [js ''#'', js ''#'']) =
     [js ''slide_1700000000000_0'', js ''title_shape_1700000000000_0'',
      js ''body_shape_1700000000000_0'', js ''slide_1700000000000_1'',
      js ''title_shape_1700000000000_1'', js ''body_shape_1700000000000_1''] \<and>
   distinct (createdObjectIds (buildRequests sample_parse (\<lambda>k. 1700000000000) [js ''#'', js ''#'']))"
proof -
  have "createdObjectIds (buildRequests sample_parse (\<lambda>k. 1700000000000) [js ''#'', js ''#'']) =
     [js ''slide_1700000000000_0'', js ''title_shape_1700000000000_0'',
      js ''body_shape_1700000000000_0'', js ''slide_1700000000000_1'',
      js ''title_shape_1700000000000_1'', js ''body_shape_1700000000000_1'']"
    by (simp add: buildRequests_eq createdObjectIds_append createdObjectIds_slideRequests
          sample_ids)
  with created_ids_distinct [of sample_parse "\<lambda>k. 1700000000000" "[js ''#'', js ''#'']"]
  show ?thesis by (simp only: simp_thms)
qed


text \<open>
  Claim C9. The text inserted into the title box is never the empty string. The third
  request of every group inserts \<open>titleText\<close> of the scanned title; when the scanned
  title is empty, as it is after a heading whose inline content is empty and when the
  fragment has no heading, that text is \<open>Slide\<close>, a space and the decimal digits of the
  slide counter plus one.
\<close>

theorem title_text_never_empty:
  "titleText slideTitle n \<noteq> [] \<and>
   (slideTitle = [] \<longrightarrow> titleText slideTitle n = js ''Slide '' @ digits (n + 1)) \<and>
   (\<forall>k < length fragments.
      buildRequests parse now fragments ! (7 * k + 2) =
        InsertText (titleShapeObjectId (now (3 * k + 1)) k)
          (titleText (fst (scanTokens (parse (fragments ! k)) 0 [] [])) k))"
proof (intro conjI allI impI)
  show "titleText slideTitle n \<noteq> []"
    by (simp add: titleText_def js_def)
next
  assume "slideTitle = []"
  then show "titleText slideTitle n = js ''Slide '' @ digits (n + 1)"
    by (simp add: titleText_def)
next
  fix k assume k: "k < length fragments"
  let ?rs = "buildRequests parse now fragments"
  have len: "length ?rs = 7 * length fragments"
    by (simp add: buildRequests_eq length_batchFrom)
  with k have "7 * k \<le> length ?rs" by simp
  then have "?rs ! (7 * k + 2) = take 7 (drop (7 * k) ?rs) ! 2"
    by simp
  also have "\<dots> = slideRequests (scanTokens (parse (fragments ! k)) 0 [] [])
       (now (0 + 3 * k)) (now (0 + 3 * k + 1)) (now (0 + 3 * k + 2)) (0 + k) ! 2"
    using batchFrom_group [OF k, of parse now 0 0] by (simp only: buildRequests_eq)
  also have "\<dots> = InsertText (titleShapeObjectId (now (3 * k + 1)) k)
          (titleText (fst (scanTokens (parse (fragments ! k)) 0 [] [])) k)"
    by (simp add: slideRequests_def)
  finally show "?rs ! (7 * k + 2) =
        InsertText (titleShapeObjectId (now (3 * k + 1)) k)
          (titleText (fst (scanTokens (parse (fragments ! k)) 0 [] [])) k)" .
qed

theorem title_text_never_empty_witness:
  "(0::nat) < length [js ''#''] \<and>
   scanTokens (sample_parse (js ''#'')) 0 [] [] = ([], []) \<and>
   buildRequests sample_parse (\<lambda>k. 1700000000000) [js ''#''] ! (7 * 0 + 2) =
     InsertText (js ''title_shape_1700000000000_0'') (js ''Slide 1'') \<and>
   js ''Slide 1'' \<noteq> []"
proof -
  have title: "titleText [] 0 = js ''Slide 1''"
    using title_text_never_empty [of "[]" 0 "[]" sample_parse "\<lambda>k. 0", THEN conjunct2, THEN conjunct1]
    by (simp add: digits.simps js_def)
  have l: "(0::nat) < length [js ''#'']" by simp
  have s: "scanTokens (sample_parse (js ''#'')) 0 [] [] = ([], [])"
    by (simp only: sample_parse_values scan_empty_heading_tokens)
  have n: "js ''Slide 1'' \<noteq> []" by (simp add: js_def)
  have r: "buildRequests sample_parse (\<lambda>k. 1700000000000) [js ''#''] ! (7 * 0 + 2) =
     InsertText (js ''title_shape_1700000000000_0'') (js ''Slide 1'')"
    using title_text_never_empty [of "[]" 0 "[js ''#'']" sample_parse "\<lambda>k. 1700000000000",
        THEN conjunct2, THEN conjunct2, rule_format, of 0]
    by (simp add: sample_parse_values scan_empty_heading_tokens sample_ids title)
  from l s r n show ?thesis by blast
qed

section \<open>Title and body lines\<close>

lemma scan_two_headings_tokens:
  "scanTokens two_headings_tokens 0 [] [] = (js ''B'', [js ''text''])"
  by (simp add: scanTokens.simps two_headings_tokens_def tok_def js_def)

text \<open>
  Claim C2, at the claim's own document. The text \<open># Hello\<close>, \<open>World\<close>, \<open>---\<close>,
  \<open>- a\<close>, \<open>- b\<close> is cut into two fragments, the second being the list. For the list,
  markdown-it returns \<open>list_tokens\<close>: the content of each list item is wrapped in a
  paragraph, so the token behind \<open>list_item_open\<close> is \<open>paragraph_open\<close>, not the inline
  token. The branch of line 133 that prepends the bullet is never reached: the two
  entries are pushed from the \<open>paragraph_open\<close> tokens and carry no bullet. The body
  lines of the second slide are \<open>a\<close> and \<open>b\<close>, where the claim (and the comment at line
  134) says bullet \<open>a\<close> and bullet \<open>b\<close>; the body text sent is \<open>a\<close>, two line feeds,
  \<open>b\<close>.
\<close>

theorem list_items_lose_bullet:
  "slidesContent (js ''# Hello\<newline>\<newline>World\<newline>\<newline>---\<newline>\<newline>- a\<newline>- b'') =
     [js ''# Hello\<newline>\<newline>World'', js ''- a\<newline>- b''] \<and>
   type (list_tokens ! 1) = js ''list_item_open'' \<and>
   type (list_tokens ! 2) = js ''paragraph_open'' \<and>
   snd (scanTokens list_tokens 0 [] []) = [js ''a'', js ''b''] \<and>
   snd (scanTokens list_tokens 0 [] []) \<noteq> [[0x2022, 0x20] @ js ''a'', [0x2022, 0x20] @ js ''b''] \<and>
   join (snd (scanTokens list_tokens 0 [] [])) [0x0A, 0x0A] = js ''a\<newline>\<newline>b''"
proof -
  have "slidesContent (js ''# Hello\<newline>\<newline>World\<newline>\<newline>---\<newline>\<newline>- a\<newline>- b'') =
     [js ''# Hello\<newline>\<newline>World'', js ''- a\<newline>- b'']"
    by (simp add: slidesContent_def split_def trim_def isWhiteSpace_def js_def)
  moreover have "type (list_tokens ! 1) = js ''list_item_open''"
    "type (list_tokens ! 2) = js ''paragraph_open''"
    by (simp_all add: list_tokens_def tok_def)
  moreover have "[js ''a'', js ''b''] \<noteq> [[0x2022, 0x20] @ js ''a'', [0x2022, 0x20] @ js ''b'']"
    "join [js ''a'', js ''b''] [0x0A, 0x0A] = js ''a\<newline>\<newline>b''"
    by (simp_all add: js_def)
  ultimately show ?thesis by (simp only: scan_list_tokens snd_conv simp_thms)
qed

text \<open>
  Claim C4, as stated, fails: a fragment whose first block is the heading \<open>A\<close> and which
  holds a second heading \<open>B\<close> gets the title \<open>B\<close>.
\<close>

theorem first_heading_title_counterexample:
  "1 < length two_headings_tokens \<and>
   type (two_headings_tokens ! 0) = js ''heading_open'' \<and>
   type (two_headings_tokens ! 1) = js ''inline'' \<and>
   content (two_headings_tokens ! 1) = js ''A'' \<and>
   fst (scanTokens two_headings_tokens 0 [] []) = js ''B'' \<and>
   js ''B'' \<noteq> js ''A'' \<and>
   \<not> (\<forall>tokens. 1 < length tokens \<and> type (tokens ! 0) = js ''heading_open'' \<and>
         type (tokens ! 1) = js ''inline'' \<longrightarrow>
         fst (scanTokens tokens 0 [] []) = content (tokens ! 1))"
proof -
  have first: "1 < length two_headings_tokens"
    "type (two_headings_tokens ! 0) = js ''heading_open''"
    "type (two_headings_tokens ! 1) = js ''inline''"
    "content (two_headings_tokens ! 1) = js ''A''"
    by (simp_all add: two_headings_tokens_def tok_def)
  have title: "fst (scanTokens two_headings_tokens 0 [] []) = js ''B''"
    by (simp add: scan_two_headings_tokens)
  have differ: "js ''B'' \<noteq> js ''A''" by (simp add: js_def)
  have "\<not> (\<forall>tokens. 1 < length tokens \<and> type (tokens ! 0) = js ''heading_open'' \<and>
         type (tokens ! 1) = js ''inline'' \<longrightarrow>
         fst (scanTokens tokens 0 [] []) = content (tokens ! 1))"
  proof
    assume "\<forall>tokens. 1 < length tokens \<and> type (tokens ! 0) = js ''heading_open'' \<and>
         type (tokens ! 1) = js ''inline'' \<longrightarrow>
         fst (scanTokens tokens 0 [] []) = content (tokens ! 1)"
    then have "1 < length two_headings_tokens \<and>
         type (two_headings_tokens ! 0) = js ''heading_open'' \<and>
         type (two_headings_tokens ! 1) = js ''inline'' \<longrightarrow>
         fst (scanTokens two_headings_tokens 0 [] []) = content (two_headings_tokens ! 1)"
      by (rule spec)
    with first(1-3) have "fst (scanTokens two_headings_tokens 0 [] []) =
        content (two_headings_tokens ! 1)" by blast
    then have "js ''B'' = js ''A''" by (simp only: title first(4))
    with differ show False ..
  qed
  with first title differ show ?thesis by blast
qed

text \<open>
  Claim C4, amended. When the first block of a fragment is a heading with inline text
  \<open>T\<close> and no later \<open>heading_open\<close> token is followed at once by an inline token, the
  scanned title is \<open>T\<close> exactly; the inline token is consumed with the opening token (the
  scan goes on behind it, at index 2, with no body line); and \<open>T\<close>, unless it is empty,
  is the text inserted into the title box. When the fragment holds no \<open>heading_open\<close>
  token, the text inserted is \<open>Slide\<close>, a space and the slide counter plus one.
\<close>

theorem first_heading_is_title:
  "(1 < length tokens \<and> type (tokens ! 0) = js ''heading_open'' \<and>
    type (tokens ! 1) = js ''inline'' \<and>
    (\<forall>k. 0 < k \<and> k + 1 < length tokens \<and> type (tokens ! k) = js ''heading_open'' \<longrightarrow>
       type (tokens ! (k + 1)) \<noteq> js ''inline'') \<longrightarrow>
      scanTokens tokens 0 [] [] = scanTokens tokens 2 (content (tokens ! 1)) [] \<and>
      fst (scanTokens tokens 0 [] []) = content (tokens ! 1) \<and>
      (content (tokens ! 1) \<noteq> [] \<longrightarrow>
         titleText (fst (scanTokens tokens 0 [] [])) n = content (tokens ! 1))) \<and>
   ((\<forall>k < length tokens. type (tokens ! k) \<noteq> js ''heading_open'') \<longrightarrow>
      titleText (fst (scanTokens tokens 0 [] [])) n = js ''Slide '' @ digits (n + 1))"
proof (intro conjI impI)
  assume h: "1 < length tokens \<and> type (tokens ! 0) = js ''heading_open'' \<and>
    type (tokens ! 1) = js ''inline'' \<and>
    (\<forall>k. 0 < k \<and> k + 1 < length tokens \<and> type (tokens ! k) = js ''heading_open'' \<longrightarrow>
       type (tokens ! (k + 1)) \<noteq> js ''inline'')"
  then have a: "0 + 1 < length tokens" "type (tokens ! 0) = js ''heading_open''"
    "type (tokens ! (0 + 1)) = js ''inline''" by simp_all
  have "scanTokens tokens 0 [] [] = scanTokens tokens (0 + 2) (content (tokens ! (0 + 1))) []"
    by (rule scan_heading [OF a])
  then show "scanTokens tokens 0 [] [] = scanTokens tokens 2 (content (tokens ! 1)) []"
    by (simp add: numeral_2_eq_2)
  from h have "\<forall>k. 0 < k \<and> k + 1 < length tokens \<and> type (tokens ! k) = js ''heading_open'' \<longrightarrow>
       type (tokens ! (k + 1)) \<noteq> js ''inline''" by simp
  from title_from_last_heading [OF a this]
  show t: "fst (scanTokens tokens 0 [] []) = content (tokens ! 1)" by simp
  assume "content (tokens ! 1) \<noteq> []"
  with t show "titleText (fst (scanTokens tokens 0 [] [])) n = content (tokens ! 1)"
    by (simp add: titleText_def)
next
  assume "\<forall>k < length tokens. type (tokens ! k) \<noteq> js ''heading_open''"
  from title_without_heading [OF this]
  show "titleText (fst (scanTokens tokens 0 [] [])) n = js ''Slide '' @ digits (n + 1)"
    by (simp add: titleText_def)
qed

theorem first_heading_is_title_witness:
  "1 < length hello_tokens \<and> type (hello_tokens ! 0) = js ''heading_open'' \<and>
   type (hello_tokens ! 1) = js ''inline'' \<and>
   scanTokens hello_tokens 0 [] [] = scanTokens hello_tokens 2 (js ''Hello'') [] \<and>
   fst (scanTokens hello_tokens 0 [] []) = js ''Hello'' \<and>
   titleText (fst (scanTokens hello_tokens 0 [] [])) 0 = js ''Hello'' \<and>
   titleText (fst (scanTokens list_tokens 0 [] [])) 1 = js ''Slide 2''"
proof -
  have first: "1 < length hello_tokens" "type (hello_tokens ! 0) = js ''heading_open''"
    "type (hello_tokens ! 1) = js ''inline''" "content (hello_tokens ! 1) = js ''Hello''"
    by (simp_all add: hello_tokens_def tok_def)
  have "\<forall>p \<in> set (drop (0 + 1) (zip hello_tokens (tl hello_tokens))).
          \<not> (type (fst p) = js ''heading_open'' \<and> type (snd p) = js ''inline'')"
    by (simp add: hello_tokens_def tok_def js_def)
  from later_pairs_check [OF this]
  have later: "\<forall>k. 0 < k \<and> k + 1 < length hello_tokens \<and>
      type (hello_tokens ! k) = js ''heading_open'' \<longrightarrow>
      type (hello_tokens ! (k + 1)) \<noteq> js ''inline''" .
  have ne: "js ''Hello'' \<noteq> []" by (simp add: js_def)
  have "\<forall>x \<in> set list_tokens. type x \<noteq> js ''heading_open''"
    by (simp add: list_tokens_def tok_def js_def)
  then have none: "\<forall>k < length list_tokens. type (list_tokens ! k) \<noteq> js ''heading_open''"
    by (simp only: all_set_conv_all_nth)
  have d: "js ''Slide '' @ digits (1 + 1) = js ''Slide 2''"
    by (simp add: digits.simps js_def)
  have hyp: "1 < length hello_tokens \<and> type (hello_tokens ! 0) = js ''heading_open'' \<and>
      type (hello_tokens ! 1) = js ''inline'' \<and>
      (\<forall>k. 0 < k \<and> k + 1 < length hello_tokens \<and>
         type (hello_tokens ! k) = js ''heading_open'' \<longrightarrow>
         type (hello_tokens ! (k + 1)) \<noteq> js ''inline'')"
    using first(1-3) later by blast
  note first_heading_is_title [of hello_tokens 0, THEN conjunct1, THEN mp, OF hyp,
      unfolded first(4)]
  with ne have "scanTokens hello_tokens 0 [] [] = scanTokens hello_tokens 2 (js ''Hello'') [] \<and>
        fst (scanTokens hello_tokens 0 [] []) = js ''Hello'' \<and>
        titleText (fst (scanTokens hello_tokens 0 [] [])) 0 = js ''Hello''"
    by blast
  moreover have "titleText (fst (scanTokens list_tokens 0 [] [])) 1 = js ''Slide 2''"
    by (rule first_heading_is_title [of list_tokens 1, THEN conjunct2, THEN mp, OF none,
          unfolded d])
  ultimately show ?thesis using first(1-3) by blast
qed

text \<open>
  Claim C10. In a fragment with several heading blocks that have inline text, the scanned
  title is the text of the last of them: every heading overwrites the title. No body line
  comes from a heading: every body line is the content of an inline token that directly
  follows a \<open>paragraph_open\<close> or \<open>list_item_open\<close> token (with the bullet in front in the
  second case).
\<close>

theorem last_heading_wins:
  assumes "j + 1 < length tokens" and "type (tokens ! j) = js ''heading_open''"
    and "type (tokens ! (j + 1)) = js ''inline''"
    and "\<forall>k. j < k \<and> k + 1 < length tokens \<and> type (tokens ! k) = js ''heading_open'' \<longrightarrow>
           type (tokens ! (k + 1)) \<noteq> js ''inline''"
  shows "fst (scanTokens tokens 0 [] []) = content (tokens ! (j + 1)) \<and>
         (\<forall>e \<in> set (snd (scanTokens tokens 0 [] [])).
            \<exists>k. k + 1 < length tokens \<and>
              (type (tokens ! k) = js ''paragraph_open'' \<or> type (tokens ! k) = js ''list_item_open'') \<and>
              type (tokens ! (k + 1)) = js ''inline'' \<and>
              (e = content (tokens ! (k + 1)) \<or> e = [0x2022, 0x20] @ content (tokens ! (k + 1))))"
  using title_from_last_heading [OF assms] body_lines_origin [of _ tokens "[]"] by blast

theorem last_heading_wins_witness:
  "6 + 1 < length two_headings_tokens \<and>
   type (two_headings_tokens ! 0) = js ''heading_open'' \<and>
   content (two_headings_tokens ! 1) = js ''A'' \<and>
   type (two_headings_tokens ! 6) = js ''heading_open'' \<and>
   type (two_headings_tokens ! (6 + 1)) = js ''inline'' \<and>
   content (two_headings_tokens ! (6 + 1)) = js ''B'' \<and>
   fst (scanTokens two_headings_tokens 0 [] []) = js ''B'' \<and>
   snd (scanTokens two_headings_tokens 0 [] []) = [js ''text'']"
proof -
  have a: "6 + 1 < length two_headings_tokens"
    "type (two_headings_tokens ! 6) = js ''heading_open''"
    "type (two_headings_tokens ! (6 + 1)) = js ''inline''"
    by (simp_all add: two_headings_tokens_def tok_def)
  have b: "type (two_headings_tokens ! 0) = js ''heading_open''"
    "content (two_headings_tokens ! 1) = js ''A''"
    "content (two_headings_tokens ! (6 + 1)) = js ''B''"
    by (simp_all add: two_headings_tokens_def tok_def)
  have "\<forall>p \<in> set (drop (6 + 1) (zip two_headings_tokens (tl two_headings_tokens))).
          \<not> (type (fst p) = js ''heading_open'' \<and> type (snd p) = js ''inline'')"
    by (simp add: two_headings_tokens_def tok_def js_def)
  from later_pairs_check [OF this]
  have later: "\<forall>k. 6 < k \<and> k + 1 < length two_headings_tokens \<and>
      type (two_headings_tokens ! k) = js ''heading_open'' \<longrightarrow>
      type (two_headings_tokens ! (k + 1)) \<noteq> js ''inline''" .
  from last_heading_wins [OF a later, THEN conjunct1] b(3)
  have "fst (scanTokens two_headings_tokens 0 [] []) = js ''B''" by simp
  moreover have "snd (scanTokens two_headings_tokens 0 [] []) = [js ''text'']"
    by (simp add: scan_two_headings_tokens)
  ultimately show ?thesis using a b by blast
qed


section \<open>Splitting and joining\<close>

lemma split_from_nonempty: "split_from sep s piece \<noteq> []"
  by (induction sep s piece rule: split_from.induct) simp_all

lemma join_Cons: "ys \<noteq> [] \<Longrightarrow> join (x # ys) sep = x @ sep @ join ys sep"
  by (cases ys) simp_all

lemma prefix_drop_rest:
  assumes "sep \<noteq> []" "prefix sep (c # cs)"
  shows "sep @ drop (length sep - 1) cs = c # cs"
proof -
  from assms(2) obtain zs where zs: "c # cs = sep @ zs" by (auto simp add: prefix_def)
  with assms(1) obtain ss where ss: "sep = c # ss" by (cases sep) auto
  with zs have "cs = ss @ zs" by simp
  with ss show ?thesis by simp
qed

text \<open>The pieces, joined by the separator, give the string back.\<close>

lemma join_split_from:
  "sep \<noteq> [] \<Longrightarrow> join (split_from sep s piece) sep = piece @ s"
proof (induction sep s piece rule: split_from.induct)
  case (1 sep piece)
  then show ?case by simp
next
  case (2 sep c cs piece)
  show ?case
  proof (cases "prefix sep (c # cs)")
    case True
    from 2(1) [OF True 2(3)]
    have "join (split_from sep (drop (length sep - 1) cs) []) sep = drop (length sep - 1) cs"
      by simp
    with True prefix_drop_rest [OF 2(3) True] show ?thesis
      by (simp add: join_Cons split_from_nonempty)
  next
    case False
    with 2(2) [OF False 2(3)] show ?thesis by simp
  qed
qed

lemma join_split: "join (split s sep) sep = s"
proof (cases "sep = []")
  case True
  have "join (map (\<lambda>c. [c]) s) [] = s"
    by (induction s rule: induct_list012) simp_all
  with True show ?thesis by (simp add: split_def)
next
  case False
  then show ?thesis by (simp add: split_def join_split_from)
qed

lemma short_prefix_of_append:
  assumes "prefix xs (ys @ zs)" "length xs \<le> length ys"
  shows "prefix xs ys"
proof -
  from assms(1) obtain us where "ys @ zs = xs @ us" by (auto simp add: prefix_def)
  with assms(2) have "xs = take (length xs) ys"
    by (metis append_eq_conv_conj take_append diff_is_0_eq' take_0 append_Nil2)
  then show ?thesis by (metis take_is_prefix)
qed

text \<open>
  A piece in which the separator does not begin (not even overlapping the separator that
  follows it) is cut off at that separator.
\<close>

lemma split_from_piece:
  assumes "sep \<noteq> []" "\<not> includes_str (p @ butlast sep) sep"
  shows "split_from sep (p @ sep @ rest) acc = (acc @ p) # split_from sep rest []"
  using assms(2)
proof (induction p arbitrary: acc)
  case Nil
  from assms(1) obtain c ss where sep: "sep = c # ss" by (cases sep) auto
  then have "split_from sep (sep @ rest) acc =
             acc # split_from sep (drop (length sep - 1) (ss @ rest)) []"
    by simp
  with sep show ?case by simp
next
  case (Cons c p)
  from Cons.prems have np: "\<not> prefix sep (c # p @ butlast sep)"
    and rec: "\<not> includes_str (p @ butlast sep) sep" by simp_all
  have "\<not> prefix sep (c # p @ sep @ rest)"
  proof
    assume "prefix sep (c # p @ sep @ rest)"
    moreover have "c # p @ sep @ rest = (c # p @ butlast sep) @ ([last sep] @ rest)"
      using assms(1) by simp
    moreover have "length sep \<le> length (c # p @ butlast sep)" by simp
    ultimately have "prefix sep (c # p @ butlast sep)"
      using short_prefix_of_append by metis
    with np show False ..
  qed
  then have "split_from sep ((c # p) @ sep @ rest) acc = split_from sep (p @ sep @ rest) (acc @ [c])"
    by simp
  with Cons.IH [OF rec, of "acc @ [c]"] show ?case by simp
qed

lemma split_from_last:
  assumes "sep \<noteq> []" "\<not> includes_str p sep"
  shows "split_from sep p acc = [acc @ p]"
  using assms(2) by (induction p arbitrary: acc) simp_all

lemma split_from_join:
  assumes "sep \<noteq> []"
  shows "ps \<noteq> [] \<Longrightarrow> \<forall>p \<in> set (butlast ps). \<not> includes_str (p @ butlast sep) sep \<Longrightarrow>
         \<not> includes_str (last ps) sep \<Longrightarrow>
         split_from sep (join ps sep) acc = (acc @ hd ps) # tl ps"
proof (induction ps arbitrary: acc)
  case Nil
  then show ?case by simp
next
  case (Cons x ps)
  show ?case
  proof (cases "ps = []")
    case True
    with Cons.prems split_from_last [OF assms, of x acc] show ?thesis by simp
  next
    case False
    with Cons.prems have x: "\<not> includes_str (x @ butlast sep) sep"
      and rest: "\<forall>p \<in> set (butlast ps). \<not> includes_str (p @ butlast sep) sep"
      and l: "\<not> includes_str (last ps) sep"
      by simp_all
    from False have "split_from sep (join (x # ps) sep) acc =
                     split_from sep (x @ sep @ join ps sep) acc"
      by (simp add: join_Cons)
    also have "\<dots> = (acc @ x) # split_from sep (join ps sep) []"
      by (rule split_from_piece [OF assms x])
    also have "\<dots> = (acc @ x) # ([] @ hd ps) # tl ps"
      by (simp only: Cons.IH [OF False rest l])
    finally show ?thesis using False by simp
  qed
qed

lemma split_join:
  assumes "sep \<noteq> []" "ps \<noteq> []"
    "\<forall>p \<in> set (butlast ps). \<not> includes_str (p @ butlast sep) sep"
    "\<not> includes_str (last ps) sep"
  shows "split (join ps sep) sep = ps"
  using split_from_join [OF assms, of "[]"] assms(1,2) by (simp add: split_def)

text \<open>A text made of separators and white space only has white space in every piece.\<close>

lemma split_from_white:
  assumes "\<forall>c \<in> set w. isWhiteSpace c"
  shows "split_from (js ''---'') (w @ rest) acc = split_from (js ''---'') rest (acc @ w)"
  using assms
proof (induction w arbitrary: acc)
  case Nil
  then show ?case by simp
next
  case (Cons c w)
  then have "isWhiteSpace c" by simp
  then have "c \<noteq> 0x2D" by (auto simp add: isWhiteSpace_def)
  then have "\<not> prefix (js ''---'') (c # w @ rest)" by (simp add: js_def)
  then have "split_from (js ''---'') ((c # w) @ rest) acc =
             split_from (js ''---'') (w @ rest) (acc @ [c])" by simp
  with Cons.IH [of "acc @ [c]"] Cons.prems show ?case by simp
qed

lemma split_from_blank:
  assumes "\<forall>p \<in> set parts. p = js ''---'' \<or> (\<forall>c \<in> set p. isWhiteSpace c)"
    and "\<forall>c \<in> set acc. isWhiteSpace c"
  shows "\<forall>x \<in> set (split_from (js ''---'') (concat parts) acc). \<forall>c \<in> set x. isWhiteSpace c"
  using assms
proof (induction parts arbitrary: acc)
  case Nil
  then show ?case by simp
next
  case (Cons p parts)
  from Cons.prems(1) have rest: "\<forall>p \<in> set parts. p = js ''---'' \<or> (\<forall>c \<in> set p. isWhiteSpace c)"
    by simp
  from Cons.prems(1) consider (sep) "p = js ''---''" | (white) "\<forall>c \<in> set p. isWhiteSpace c"
    by auto
  then show ?case
  proof cases
    case sep
    have ne: "js ''---'' \<noteq> []" by (simp add: js_def)
    have "\<not> includes_str ([] @ butlast (js ''---'')) (js ''---'')" by (simp add: js_def)
    from split_from_piece [OF ne this, of "concat parts" acc] sep
    have "split_from (js ''---'') (concat (p # parts)) acc =
          acc # split_from (js ''---'') (concat parts) []" by simp
    with Cons.IH [OF rest, of "[]"] Cons.prems(2) show ?thesis by simp
  next
    case white
    from split_from_white [OF white, of "concat parts" acc]
    have "split_from (js ''---'') (concat (p # parts)) acc =
          split_from (js ''---'') (concat parts) (acc @ p)" by simp
    moreover from white Cons.prems(2) have "\<forall>c \<in> set (acc @ p). isWhiteSpace c" by auto
    ultimately show ?thesis using Cons.IH [OF rest, of "acc @ p"] by simp
  qed
qed

lemma trim_white:
  assumes "\<forall>c \<in> set s. isWhiteSpace c"
  shows "trim s = []"
proof -
  from assms show ?thesis
    by (auto simp add: trim_def dest: set_dropWhileD)
qed

lemma slidesContent_blank:
  assumes "\<forall>p \<in> set parts. p = js ''---'' \<or> (\<forall>c \<in> set p. isWhiteSpace c)"
  shows "slidesContent (concat parts) = []"
proof -
  have ne: "js ''---'' \<noteq> []" by (simp add: js_def)
  from split_from_blank [OF assms, of "[]"]
  have "\<forall>x \<in> set (split (concat parts) (js ''---'')). trim x = []"
    using ne by (simp add: split_def trim_white)
  then show ?thesis
    by (simp add: slidesContent_def filter_empty_conv)
qed

text \<open>What \<open>trim\<close> returns neither starts nor ends with white space.\<close>

lemma trim_ends:
  "trim s \<noteq> [] \<Longrightarrow> \<not> isWhiteSpace (hd (trim s)) \<and> \<not> isWhiteSpace (last (trim s))"
proof -
  assume ne: "trim s \<noteq> []"
  let ?a = "dropWhile isWhiteSpace s"
  let ?b = "dropWhile isWhiteSpace (rev ?a)"
  from ne have b: "?b \<noteq> []" by (simp add: trim_def)
  then have "\<not> isWhiteSpace (hd ?b)" by (rule hd_dropWhile)
  with b have l: "\<not> isWhiteSpace (last (trim s))" by (simp add: trim_def last_rev)
  have a: "?a \<noteq> []"
  proof
    assume "?a = []"
    then have "?b = []" by (simp only: rev.simps dropWhile.simps)
    with b show False ..
  qed
  then have ha: "\<not> isWhiteSpace (hd ?a)" by (rule hd_dropWhile)
  from a have "\<not> isWhiteSpace (last (rev ?a))" using ha by (simp add: last_rev)
  have "last ?b = last (rev ?a)"
    using b by (metis last_appendR takeWhile_dropWhile_id)
  also have "\<dots> = hd ?a" using a by (simp add: last_rev)
  finally have "hd (trim s) = hd ?a" using b by (simp add: trim_def hd_rev)
  with ha l show ?thesis by simp
qed


section \<open>The fragments of a document\<close>

text \<open>
  Claim C3. With the delimiter \<open>---\<close>: the pieces that \<open>split\<close> cuts, joined by the
  delimiter, are the document, so they are its delimiter-separated pieces in their order.
  For a document written as pieces \<open>ps\<close> joined by the delimiter, where the delimiter
  begins nowhere in a piece (for a piece before the last, not even overlapping the
  delimiter behind it), the fragments are exactly the trimmed pieces that are not empty,
  in the order of \<open>ps\<close>, with nothing reordered or dropped as a duplicate. Every fragment
  is non-empty and neither starts nor ends with white space. A document that consists of
  delimiters and white space only, the empty document included, has no fragment.
\<close>

theorem slidesContent_pieces:
  "join (split d (js ''---'')) (js ''---'') = d \<and>
   (\<forall>f \<in> set (slidesContent d). f \<noteq> [] \<and> \<not> isWhiteSpace (hd f) \<and> \<not> isWhiteSpace (last f)) \<and>
   (ps \<noteq> [] \<and> (\<forall>p \<in> set (butlast ps). \<not> includes_str (p @ js ''--'') (js ''---'')) \<and>
    \<not> includes_str (last ps) (js ''---'') \<longrightarrow>
      slidesContent (join ps (js ''---'')) = filter (\<lambda>s. s \<noteq> []) (map trim ps)) \<and>
   ((\<forall>p \<in> set parts. p = js ''---'' \<or> (\<forall>c \<in> set p. isWhiteSpace c)) \<longrightarrow>
      slidesContent (concat parts) = []) \<and>
   slidesContent [] = []"
proof (intro conjI ballI impI)
  show "join (split d (js ''---'')) (js ''---'') = d" by (rule join_split)
next
  fix f assume "f \<in> set (slidesContent d)"
  then obtain p where "f = trim p" "trim p \<noteq> []"
    by (auto simp add: slidesContent_def)
  with trim_ends [of p]
  show "f \<noteq> []" "\<not> isWhiteSpace (hd f)" "\<not> isWhiteSpace (last f)" by simp_all
next
  assume h: "ps \<noteq> [] \<and> (\<forall>p \<in> set (butlast ps). \<not> includes_str (p @ js ''--'') (js ''---'')) \<and>
    \<not> includes_str (last ps) (js ''---'')"
  have ne: "js ''---'' \<noteq> []" and b: "butlast (js ''---'') = js ''--''" by (simp_all add: js_def)
  from h have "split (join ps (js ''---'')) (js ''---'') = ps"
    by (intro split_join) (simp_all add: ne b)
  then show "slidesContent (join ps (js ''---'')) = filter (\<lambda>s. s \<noteq> []) (map trim ps)"
    by (simp add: slidesContent_def)
next
  assume "\<forall>p \<in> set parts. p = js ''---'' \<or> (\<forall>c \<in> set p. isWhiteSpace c)"
  then show "slidesContent (concat parts) = []" by (rule slidesContent_blank)
next
  have "slidesContent (concat []) = []" by (rule slidesContent_blank) simp
  then show "slidesContent [] = []" by simp
qed

theorem slidesContent_pieces_witness:
  "\<not> includes_str (js ''# Hello\<newline>\<newline>World\<newline>\<newline>'' @ js ''--'') (js ''---'') \<and>
   \<not> includes_str (js ''\<newline>\<newline>- a\<newline>- b'') (js ''---'') \<and>
   slidesContent (join [js ''# Hello\<newline>\<newline>World\<newline>\<newline>'', js ''\<newline>\<newline>- a\<newline>- b''] (js ''---'')) =
     [js ''# Hello\<newline>\<newline>World'', js ''- a\<newline>- b''] \<and>
   slidesContent (concat [js ''---'', js '' \<newline>'', js ''---'']) = []"
proof -
  let ?ps = "[js ''# Hello\<newline>\<newline>World\<newline>\<newline>'', js ''\<newline>\<newline>- a\<newline>- b'']"
  let ?parts = "[js ''---'', js '' \<newline>'', js ''---'']"
  note t = slidesContent_pieces [of "[]" ?ps ?parts]
  have a: "\<not> includes_str (js ''# Hello\<newline>\<newline>World\<newline>\<newline>'' @ js ''--'') (js ''---'')"
    and b: "\<not> includes_str (js ''\<newline>\<newline>- a\<newline>- b'') (js ''---'')"
    by (simp_all add: js_def)
  have tr: "filter (\<lambda>s. s \<noteq> []) (map trim ?ps) = [js ''# Hello\<newline>\<newline>World'', js ''- a\<newline>- b'']"
    by (simp add: trim_def isWhiteSpace_def js_def)
  have hyp: "?ps \<noteq> [] \<and> (\<forall>p \<in> set (butlast ?ps). \<not> includes_str (p @ js ''--'') (js ''---'')) \<and>
    \<not> includes_str (last ?ps) (js ''---'')"
    using a b by simp
  have c: "slidesContent (join ?ps (js ''---'')) = [js ''# Hello\<newline>\<newline>World'', js ''- a\<newline>- b'']"
    using t [THEN conjunct2, THEN conjunct2, THEN conjunct1, THEN mp, OF hyp]
    by (simp only: tr)
  have w: "\<forall>p \<in> set ?parts. p = js ''---'' \<or> (\<forall>c \<in> set p. isWhiteSpace c)"
    by (simp add: isWhiteSpace_def js_def)
  have d: "slidesContent (concat ?parts) = []"
    by (rule t [THEN conjunct2, THEN conjunct2, THEN conjunct2, THEN conjunct1, THEN mp, OF w])
  from a b c d show ?thesis by blast
qed

text \<open>
  Claim C8. An authenticated \<open>POST /convert\<close> whose text consists of delimiters and
  white space only calls \<open>presentations.create\<close> and nothing else: the batch is empty
  and \<open>batchUpdate\<close> is skipped, whatever the Slides API would answer. When the creation
  returns the presentation \<open>pid\<close>, the response renders the view \<open>success\<close> with the edit
  URL of \<open>pid\<close>.
\<close>

theorem convert_blank_document:
  assumes "\<not> falsy (access_token creds)"
    and "\<forall>p \<in> set parts. p = js ''---'' \<or> (\<forall>c \<in> set p. isWhiteSpace c)"
  shows "calls (convert w creds (Form (Some (concat parts)))) =
           [PresentationsCreate (js ''Apresenta'' @ [0xE7, 0xE3] @ js ''o Gerada do Markdown'')] \<and>
         (\<forall>pid. presentations_create w (js ''Apresenta'' @ [0xE7, 0xE3] @ js ''o Gerada do Markdown'') = Inr pid \<longrightarrow>
            response (convert w creds (Form (Some (concat parts)))) =
              Some (Render (js ''success'')
                (PresentationUrl (js ''https://docs.google.com/presentation/d/'' @ pid @ js ''/edit''))))"
proof -
  have none: "buildRequests (markdownit_parse w) (Date_now w) (slidesContent (concat parts)) = []"
    by (simp add: slidesContent_blank [OF assms(2)] buildRequests_def)
  show ?thesis
  proof (cases "presentations_create w (js ''Apresenta'' @ [0xE7, 0xE3] @ js ''o Gerada do Markdown'')")
    case (Inl error)
    with assms(1) show ?thesis by (simp add: convert_def)
  next
    case (Inr presentationId)
    with assms(1) none show ?thesis by (simp add: convert_def)
  qed
qed

theorem convert_blank_document_witness:
  "\<not> falsy (access_token sample_tokens) \<and>
   calls (convert sample_world sample_tokens (Form (Some (concat [js ''---'', js '' \<newline>'', js ''---''])))) =
     [PresentationsCreate (js ''Apresenta'' @ [0xE7, 0xE3] @ js ''o Gerada do Markdown'')] \<and>
   response (convert sample_world sample_tokens (Form (Some (concat [js ''---'', js '' \<newline>'', js ''---''])))) =
     Some (Render (js ''success'')
       (PresentationUrl (js ''https://docs.google.com/presentation/d/'' @ js ''p1'' @ js ''/edit'')))"
proof -
  let ?parts = "[js ''---'', js '' \<newline>'', js ''---'']"
  have a: "\<not> falsy (access_token sample_tokens)"
    by (simp add: falsy_def sample_tokens_def js_def)
  have w: "\<forall>p \<in> set ?parts. p = js ''---'' \<or> (\<forall>c \<in> set p. isWhiteSpace c)"
    by (simp add: isWhiteSpace_def js_def)
  have c: "presentations_create sample_world
             (js ''Apresenta'' @ [0xE7, 0xE3] @ js ''o Gerada do Markdown'') = Inr (js ''p1'')"
    by (simp add: sample_world_def)
  note t = convert_blank_document [OF a w, of sample_world]
  from t [THEN conjunct1] t [THEN conjunct2, rule_format, OF c] a
  show ?thesis by blast
qed


end
